theory Spec2Isabelle
  imports Complex_Main "HOL-Library.AList" "HOL-Library.Multiset"
begin

section \<open>Telemetry and alerting of the banking bot\<close>

text \<open>
  A shallow embedding of \<^verbatim>\<open>monitoring/metrics_collector.py\<close>,
  \<^verbatim>\<open>monitoring/performance_tracker.py\<close> and \<^verbatim>\<open>monitoring/alerts.py\<close>.

  Conventions of the embedding.
  \<^item> A Python \<^verbatim>\<open>dict\<close> (and a \<^verbatim>\<open>Counter\<close>) is an association list in insertion
    order: assigning to a key that is present keeps its position
    (\<^const>\<open>AList.update\<close>), \<^verbatim>\<open>pop(key)\<close> removes it (\<^const>\<open>AList.delete\<close>).
  \<^item> Python \<^verbatim>\<open>int\<close> is \<^typ>\<open>int\<close>. A Python \<^verbatim>\<open>float\<close> that holds a clock reading, a
    duration or a rate is the rational it denotes (\<^typ>\<open>rat\<close>); the rounding of float
    arithmetic is not modelled, except where an index is computed from a float product
    (the p95 index below, which is modelled bit for bit).
  \<^item> Every reading of the clock (\<^verbatim>\<open>time.time()\<close>, \<^verbatim>\<open>datetime.now()\<close>) is an argument
    of the function that reads it.
  \<^item> Mutation is state passing: every method takes the object and returns the new one.
    The background writer threads, the locks and the files on disk are not modelled.
\<close>

subsection \<open>Counters\<close>

text \<open>\<^verbatim>\<open>counter[key]\<close> of a \<^verbatim>\<open>collections.Counter\<close>: a missing key counts 0.\<close>

definition counter_get :: "(string \<times> int) list \<Rightarrow> string \<Rightarrow> int" where
  "counter_get c k = (case map_of c k of None \<Rightarrow> 0 | Some n \<Rightarrow> n)"

text \<open>\<^verbatim>\<open>counter[key] += 1\<close>.\<close>

definition counter_incr :: "string \<Rightarrow> (string \<times> int) list \<Rightarrow> (string \<times> int) list" where
  "counter_incr k c = AList.update k (counter_get c k + 1) c"

text \<open>
  \<^verbatim>\<open>counter.most_common(n)\<close>: the \<open>n\<close> largest counts, ties in insertion order
  (a stable sort by descending count).
\<close>

definition most_common :: "nat \<Rightarrow> (string \<times> int) list \<Rightarrow> (string \<times> int) list" where
  "most_common n c = take n (sort_key (\<lambda>p. - snd p) c)"

subsection \<open>MetricsContext\<close>

record MetricsContext =
  request_id :: string
  user_id :: string
  session_id :: string
  start_time :: rat
  end_time :: "rat option"
  llm_call_count :: int
  llm_tokens_in :: int
  llm_tokens_out :: int
  tool_calls :: "(string \<times> int) list"
  agent_calls :: "(string \<times> int) list"
  guardrail_blocks :: int
  errors :: "string list"
  latency_ms :: "rat option"

text \<open>The dataclass constructor; \<open>now\<close> is the \<^verbatim>\<open>time.time()\<close> of the default factory.\<close>

definition new_context :: "string \<Rightarrow> string \<Rightarrow> string \<Rightarrow> rat \<Rightarrow> MetricsContext" where
  "new_context rid uid sid now =
     \<lparr> request_id = rid, user_id = uid, session_id = sid, start_time = now,
       end_time = None, llm_call_count = 0, llm_tokens_in = 0, llm_tokens_out = 0,
       tool_calls = [], agent_calls = [], guardrail_blocks = 0, errors = [],
       latency_ms = None \<rparr>"

text \<open>\<^verbatim>\<open>MetricsContext.complete\<close>; \<open>now\<close> is the \<^verbatim>\<open>time.time()\<close> it reads.\<close>

definition complete :: "rat \<Rightarrow> MetricsContext \<Rightarrow> MetricsContext" where
  "complete now ctx =
     ctx\<lparr> end_time := Some now, latency_ms := Some ((now - start_time ctx) * 1000) \<rparr>"

subsection \<open>MetricsCollector\<close>

text \<open>
  The dictionary \<^verbatim>\<open>context_dict\<close> that \<^verbatim>\<open>complete_request\<close> appends to the history. Its
  \<^verbatim>\<open>timestamp\<close> is the ISO rendering of the start time; the model keeps the start time.
\<close>

record HistoricalRecord =
  h_request_id :: string
  h_user_id :: string
  h_session_id :: string
  h_timestamp :: rat
  h_latency_ms :: "rat option"
  h_llm_call_count :: int
  h_llm_tokens_in :: int
  h_llm_tokens_out :: int
  h_tool_calls :: "(string \<times> int) list"
  h_agent_calls :: "(string \<times> int) list"
  h_guardrail_blocks :: int
  h_errors :: "string list"
  h_success :: bool

record MetricsCollector =
  active_contexts :: "(string \<times> MetricsContext) list"
  historical_metrics :: "HistoricalRecord list"
  max_historical :: nat
  total_requests :: int
  successful_requests :: int
  failed_requests :: int
  total_latency_ms :: rat
  tool_usage :: "(string \<times> int) list"
  agent_usage :: "(string \<times> int) list"
  guardrail_blocks_total :: int

text \<open>The state \<^verbatim>\<open>__init__\<close> builds (the field \<^verbatim>\<open>guardrail_blocks\<close> of the collector is
  \<^const>\<open>guardrail_blocks_total\<close> here, the context has a field of the same name).\<close>

definition init_collector :: MetricsCollector where
  "init_collector =
     \<lparr> active_contexts = [], historical_metrics = [], max_historical = 1000,
       total_requests = 0, successful_requests = 0, failed_requests = 0,
       total_latency_ms = 0, tool_usage = [], agent_usage = [],
       guardrail_blocks_total = 0 \<rparr>"

definition start_request ::
  "string \<Rightarrow> string \<Rightarrow> string \<Rightarrow> rat \<Rightarrow> MetricsCollector \<Rightarrow> string \<times> MetricsCollector" where
  "start_request rid uid sid now s =
     (rid, s\<lparr> active_contexts := AList.update rid (new_context rid uid sid now) (active_contexts s),
              total_requests := total_requests s + 1 \<rparr>)"

definition record_llm_call :: "string \<Rightarrow> int \<Rightarrow> int \<Rightarrow> MetricsCollector \<Rightarrow> MetricsCollector" where
  "record_llm_call rid tokens_in tokens_out s =
     (case map_of (active_contexts s) rid of
        None \<Rightarrow> s
      | Some ctx \<Rightarrow>
          s\<lparr> active_contexts :=
               AList.update rid
                 (ctx\<lparr> llm_call_count := llm_call_count ctx + 1,
                       llm_tokens_in := llm_tokens_in ctx + tokens_in,
                       llm_tokens_out := llm_tokens_out ctx + tokens_out \<rparr>)
                 (active_contexts s) \<rparr>)"

definition record_tool_call :: "string \<Rightarrow> string \<Rightarrow> MetricsCollector \<Rightarrow> MetricsCollector" where
  "record_tool_call rid tool_name s =
     (case map_of (active_contexts s) rid of
        None \<Rightarrow> s
      | Some ctx \<Rightarrow>
          s\<lparr> active_contexts :=
               AList.update rid (ctx\<lparr> tool_calls := counter_incr tool_name (tool_calls ctx) \<rparr>)
                 (active_contexts s),
             tool_usage := counter_incr tool_name (tool_usage s) \<rparr>)"

definition record_agent_call :: "string \<Rightarrow> string \<Rightarrow> MetricsCollector \<Rightarrow> MetricsCollector" where
  "record_agent_call rid agent_name s =
     (case map_of (active_contexts s) rid of
        None \<Rightarrow> s
      | Some ctx \<Rightarrow>
          s\<lparr> active_contexts :=
               AList.update rid (ctx\<lparr> agent_calls := counter_incr agent_name (agent_calls ctx) \<rparr>)
                 (active_contexts s),
             agent_usage := counter_incr agent_name (agent_usage s) \<rparr>)"

definition record_guardrail_block :: "string \<Rightarrow> string \<Rightarrow> MetricsCollector \<Rightarrow> MetricsCollector" where
  "record_guardrail_block rid reason s =
     (case map_of (active_contexts s) rid of
        None \<Rightarrow> s
      | Some ctx \<Rightarrow>
          s\<lparr> active_contexts :=
               AList.update rid (ctx\<lparr> guardrail_blocks := guardrail_blocks ctx + 1 \<rparr>)
                 (active_contexts s),
             guardrail_blocks_total := guardrail_blocks_total s + 1 \<rparr>)"

definition record_error :: "string \<Rightarrow> string \<Rightarrow> MetricsCollector \<Rightarrow> MetricsCollector" where
  "record_error rid error_message s =
     (case map_of (active_contexts s) rid of
        None \<Rightarrow> s
      | Some ctx \<Rightarrow>
          s\<lparr> active_contexts :=
               AList.update rid (ctx\<lparr> errors := errors ctx @ [error_message] \<rparr>)
                 (active_contexts s) \<rparr>)"

definition context_dict :: "MetricsContext \<Rightarrow> bool \<Rightarrow> HistoricalRecord" where
  "context_dict ctx success =
     \<lparr> h_request_id = request_id ctx, h_user_id = user_id ctx, h_session_id = session_id ctx,
       h_timestamp = start_time ctx, h_latency_ms = latency_ms ctx,
       h_llm_call_count = llm_call_count ctx, h_llm_tokens_in = llm_tokens_in ctx,
       h_llm_tokens_out = llm_tokens_out ctx, h_tool_calls = tool_calls ctx,
       h_agent_calls = agent_calls ctx, h_guardrail_blocks = guardrail_blocks ctx,
       h_errors = errors ctx, h_success = success \<rparr>"

text \<open>
  \<^verbatim>\<open>xs.append(x); if len(xs) > cap: xs.pop(0)\<close>, the bounded append of the history
  (and of the resolved alerts and the per-category spans further down).
\<close>

definition append_capped :: "nat \<Rightarrow> 'a list \<Rightarrow> 'a \<Rightarrow> 'a list" where
  "append_capped cap xs x = (let ys = xs @ [x] in if length ys > cap then tl ys else ys)"

text \<open>
  \<^verbatim>\<open>complete_request\<close>: \<open>None\<close> and the unchanged collector when the id is not active.
  The context it completes always has a latency, so \<^verbatim>\<open>total_latency_ms += context.latency_ms\<close>
  adds \<open>(now - start_time) * 1000\<close>.
\<close>

definition complete_request ::
  "string \<Rightarrow> bool \<Rightarrow> rat \<Rightarrow> MetricsCollector \<Rightarrow> MetricsContext option \<times> MetricsCollector" where
  "complete_request rid success now s =
     (case map_of (active_contexts s) rid of
        None \<Rightarrow> (None, s)
      | Some ctx0 \<Rightarrow>
          (let ctx = complete now ctx0 in
           (Some ctx,
            s\<lparr> active_contexts := AList.delete rid (active_contexts s),
               successful_requests :=
                 (if success then successful_requests s + 1 else successful_requests s),
               failed_requests :=
                 (if success then failed_requests s else failed_requests s + 1),
               total_latency_ms := total_latency_ms s + (now - start_time ctx0) * 1000,
               historical_metrics :=
                 append_capped (max_historical s) (historical_metrics s)
                   (context_dict ctx success) \<rparr>)))"

record CurrentMetrics =
  cm_total_requests :: int
  cm_successful_requests :: int
  cm_failed_requests :: int
  cm_success_rate :: rat
  cm_average_latency_ms :: rat
  cm_top_tools :: "(string \<times> int) list"
  cm_top_agents :: "(string \<times> int) list"
  cm_guardrail_blocks :: int
  cm_active_requests :: nat

definition get_current_metrics :: "MetricsCollector \<Rightarrow> CurrentMetrics" where
  "get_current_metrics s =
     (let avg_latency =
            (if total_requests s > 0 then total_latency_ms s / of_int (total_requests s) else 0)
      in \<lparr> cm_total_requests = total_requests s,
            cm_successful_requests = successful_requests s,
            cm_failed_requests = failed_requests s,
            cm_success_rate = of_int (successful_requests s) / of_int (max 1 (total_requests s)),
            cm_average_latency_ms = avg_latency,
            cm_top_tools = most_common 5 (tool_usage s),
            cm_top_agents = most_common 5 (agent_usage s),
            cm_guardrail_blocks = guardrail_blocks_total s,
            cm_active_requests = length (active_contexts s) \<rparr>)"

subsection \<open>Sequences of calls on the collector\<close>

datatype collector_call =
    StartRequest string string string rat
  | RecordLlmCall string int int
  | RecordToolCall string string
  | RecordAgentCall string string
  | RecordGuardrailBlock string string
  | RecordError string string
  | CompleteRequest string bool rat

fun call :: "collector_call \<Rightarrow> MetricsCollector \<Rightarrow> MetricsCollector" where
  "call (StartRequest rid uid sid now) s = snd (start_request rid uid sid now s)"
| "call (RecordLlmCall rid i out) s = record_llm_call rid i out s"
| "call (RecordToolCall rid t) s = record_tool_call rid t s"
| "call (RecordAgentCall rid a) s = record_agent_call rid a s"
| "call (RecordGuardrailBlock rid r) s = record_guardrail_block rid r s"
| "call (RecordError rid m) s = record_error rid m s"
| "call (CompleteRequest rid success now) s = snd (complete_request rid success now s)"

fun calls :: "collector_call list \<Rightarrow> MetricsCollector \<Rightarrow> MetricsCollector" where
  "calls [] s = s"
| "calls (c # cs) s = calls cs (call c s)"

fun is_record_call :: "collector_call \<Rightarrow> bool" where
  "is_record_call (StartRequest _ _ _ _) = False"
| "is_record_call (CompleteRequest _ _ _) = False"
| "is_record_call _ = True"

text \<open>
  The snapshots that a sequence of calls appends to the history, in order: one for every
  \<^verbatim>\<open>complete_request\<close> that finds its id active.
\<close>

fun completed :: "collector_call list \<Rightarrow> MetricsCollector \<Rightarrow> HistoricalRecord list" where
  "completed [] s = []"
| "completed (CompleteRequest rid success now # cs) s =
     (case fst (complete_request rid success now s) of
        None \<Rightarrow> []
      | Some ctx \<Rightarrow> [context_dict ctx success])
     @ completed cs (call (CompleteRequest rid success now) s)"
| "completed (c # cs) s = completed cs (call c s)"

subsection \<open>Rendering integers and dates\<close>

text \<open>
  \<^verbatim>\<open>str(n)\<close> for a Python integer, the digits that an f-string writes for it, and
  \<^verbatim>\<open>int(x)\<close> for a float (truncation toward zero).
\<close>

definition digit_char :: "nat \<Rightarrow> char" where
  "digit_char d = ''0123456789'' ! (d mod 10)"

fun str_nat :: "nat \<Rightarrow> string" where
  "str_nat n = (if n < 10 then [digit_char n] else str_nat (n div 10) @ [digit_char (n mod 10)])"

declare str_nat.simps [simp del]

definition str_int :: "int \<Rightarrow> string" where
  "str_int i = (if i < 0 then CHR ''-'' # str_nat (nat (- i)) else str_nat (nat i))"

definition py_int :: "rat \<Rightarrow> int" where
  "py_int x = (if 0 \<le> x then \<lfloor>x\<rfloor> else - \<lfloor>- x\<rfloor>)"

text \<open>
  A \<^verbatim>\<open>datetime\<close> (the microseconds, which no format below prints, are left out), and the
  two formats the alert system uses: \<^verbatim>\<open>%Y%m%d%H%M%S\<close> and \<^verbatim>\<open>%Y%m%d_%H\<close>. Every field
  is printed zero-padded at its fixed width (the year of a \<^verbatim>\<open>datetime\<close> has at most four
  digits).
\<close>

record datetime =
  dt_year :: nat
  dt_month :: nat
  dt_day :: nat
  dt_hour :: nat
  dt_minute :: nat
  dt_second :: nat

fun digits :: "nat \<Rightarrow> nat \<Rightarrow> string" where
  "digits 0 n = []"
| "digits (Suc w) n = digits w (n div 10) @ [digit_char (n mod 10)]"

definition strftime_compact :: "datetime \<Rightarrow> string" where
  "strftime_compact dt =
     digits 4 (dt_year dt) @ digits 2 (dt_month dt) @ digits 2 (dt_day dt) @
     digits 2 (dt_hour dt) @ digits 2 (dt_minute dt) @ digits 2 (dt_second dt)"

definition strftime_hour :: "datetime \<Rightarrow> string" where
  "strftime_hour dt =
     digits 4 (dt_year dt) @ digits 2 (dt_month dt) @ digits 2 (dt_day dt) @ ''_'' @
     digits 2 (dt_hour dt)"

subsection \<open>The float product behind the p95 index\<close>

text \<open>
  \<^verbatim>\<open>int(len(durations) * 0.95)\<close> multiplies in IEEE double precision. The literal
  \<^verbatim>\<open>0.95\<close> is the double \<open>8556839292003942 / 2^53\<close>; the length \<open>n\<close> is a double exactly;
  the product is the exact product rounded to 53 significant bits, ties to even; and
  \<^verbatim>\<open>int\<close> truncates. Values are kept scaled by \<open>2^53\<close>, so that all of it is arithmetic
  on natural numbers.
\<close>

fun bit_length :: "nat \<Rightarrow> nat" where
  "bit_length n = (if n = 0 then 0 else Suc (bit_length (n div 2)))"

declare bit_length.simps [simp del]

text \<open>Rounding \<open>p\<close> to a multiple of \<open>2^s\<close>, to nearest, ties to the even multiple.\<close>

definition round_at :: "nat \<Rightarrow> nat \<Rightarrow> nat" where
  "round_at s p =
     (let q = p div 2 ^ s; r = p mod 2 ^ s
      in (if 2 * r > 2 ^ s \<or> (2 * r = 2 ^ s \<and> odd q) then q + 1 else q) * 2 ^ s)"

definition round_to_53 :: "nat \<Rightarrow> nat" where
  "round_to_53 p = round_at (bit_length p - 53) p"

definition float_0_95 :: nat where
  "float_0_95 = 8556839292003942"

definition p95_index :: "nat \<Rightarrow> nat" where
  "p95_index n = round_to_53 (n * float_0_95) div 2 ^ 53"

subsection \<open>PerformanceData\<close>

text \<open>The values of the open \<^verbatim>\<open>metadata\<close> dictionary of a span.\<close>

datatype pyval = PyNone | PyBool bool | PyInt int | PyFloat rat | PyStr string

record PerformanceData =
  pd_name :: string
  pd_category :: string
  pd_start_time :: rat
  pd_end_time :: "rat option"
  pd_duration_ms :: "rat option"
  pd_metadata :: "(string \<times> pyval) list option"
  pd_parent :: "string option"

text \<open>\<^verbatim>\<open>PerformanceData.complete\<close>; \<open>now\<close> is the \<^verbatim>\<open>time.time()\<close> it reads.\<close>

definition complete_data :: "rat \<Rightarrow> PerformanceData \<Rightarrow> PerformanceData" where
  "complete_data now t =
     t\<lparr> pd_end_time := Some now, pd_duration_ms := Some ((now - pd_start_time t) * 1000) \<rparr>"

subsection \<open>PerformanceTracker\<close>

record PerformanceTracker =
  traces :: "(string \<times> PerformanceData) list"
  historical_data :: "(string \<times> PerformanceData list) list"
  thresholds :: "(string \<times> rat) list"

definition set_threshold :: "string \<Rightarrow> rat \<Rightarrow> PerformanceTracker \<Rightarrow> PerformanceTracker" where
  "set_threshold cat threshold s = s\<lparr> thresholds := AList.update cat threshold (thresholds s) \<rparr>"

text \<open>The state \<^verbatim>\<open>__init__\<close> builds, with the four default thresholds.\<close>

definition init_tracker :: PerformanceTracker where
  "init_tracker =
     set_threshold ''database_query'' 100
       (set_threshold ''tool_execution'' 500
         (set_threshold ''llm_call'' 2000
           (set_threshold ''api_request'' 1000
             \<lparr> traces = [], historical_data = [], thresholds = [] \<rparr>)))"

text \<open>
  The trace id \<^verbatim>\<open>f"{name}_{int(time.time() * 1000)}_{hash(name) % 10000}"\<close>. Python's
  \<^verbatim>\<open>hash\<close> of a string is fixed within a process and differs between processes: it is the
  parameter \<open>hash\<close>. \<open>now\<close> is the clock reading in seconds.
\<close>

definition trace_id_of :: "(string \<Rightarrow> int) \<Rightarrow> string \<Rightarrow> rat \<Rightarrow> string" where
  "trace_id_of hash nm now =
     nm @ ''_'' @ str_int (py_int (now * 1000)) @ ''_'' @ str_int (hash nm mod 10000)"

text \<open>\<^verbatim>\<open>{"request_id": request_id, **(metadata or {})}\<close>.\<close>

definition initial_metadata ::
  "string option \<Rightarrow> (string \<times> pyval) list option \<Rightarrow> (string \<times> pyval) list" where
  "initial_metadata req md =
     foldl (\<lambda>acc kv. AList.update (fst kv) (snd kv) acc)
       [(''request_id'', case req of None \<Rightarrow> PyNone | Some r \<Rightarrow> PyStr r)]
       (case md of None \<Rightarrow> [] | Some m \<Rightarrow> m)"

text \<open>
  \<^verbatim>\<open>start_trace\<close> reads the clock twice: \<open>now_id\<close> for the id, \<open>now_start\<close> for the start
  time of the span. A trace id that is open already is overwritten.
\<close>

definition start_trace ::
  "(string \<Rightarrow> int) \<Rightarrow> string \<Rightarrow> string \<Rightarrow> string option \<Rightarrow> string option \<Rightarrow>
   (string \<times> pyval) list option \<Rightarrow> rat \<Rightarrow> rat \<Rightarrow> PerformanceTracker \<Rightarrow>
   string \<times> PerformanceTracker" where
  "start_trace hash nm cat req parent md now_id now_start s =
     (let trace_id = trace_id_of hash nm now_id
      in (trace_id,
          s\<lparr> traces :=
               AList.update trace_id
                 \<lparr> pd_name = nm, pd_category = cat, pd_start_time = now_start,
                   pd_end_time = None, pd_duration_ms = None,
                   pd_metadata = Some (initial_metadata req md), pd_parent = parent \<rparr>
                 (traces s) \<rparr>))"

text \<open>
  \<^verbatim>\<open>end_trace\<close>: \<open>None\<close> and the unchanged tracker when the id is not open. The span goes
  to the end of its category's history, which keeps 1000 spans. The threshold check that
  follows only writes a warning to the log and is left out.
\<close>

definition end_trace ::
  "string \<Rightarrow> bool \<Rightarrow> rat \<Rightarrow> PerformanceTracker \<Rightarrow> PerformanceData option \<times> PerformanceTracker" where
  "end_trace trace_id success now s =
     (case map_of (traces s) trace_id of
        None \<Rightarrow> (None, s)
      | Some t0 \<Rightarrow>
          (let t1 = complete_data now t0;
               md = (case pd_metadata t1 of None \<Rightarrow> [] | Some m \<Rightarrow> m);
               trace = t1\<lparr> pd_metadata := Some (AList.update ''success'' (PyBool success) md) \<rparr>;
               cat = pd_category trace;
               hist = (case map_of (historical_data s) cat of None \<Rightarrow> [] | Some h \<Rightarrow> h)
           in (Some trace,
               s\<lparr> traces := AList.delete trace_id (traces s),
                  historical_data :=
                    AList.update cat (append_capped 1000 hist trace) (historical_data s) \<rparr>)))"

subsection \<open>Aggregated latency statistics\<close>

text \<open>\<^verbatim>\<open>[t.duration_ms for t in traces if t.duration_ms is not None]\<close>.\<close>

definition durations_of :: "PerformanceData list \<Rightarrow> rat list" where
  "durations_of ts = List.map_filter pd_duration_ms ts"

text \<open>\<^verbatim>\<open>statistics.mean\<close> and \<^verbatim>\<open>statistics.median\<close>, on the rationals.\<close>

definition mean :: "rat list \<Rightarrow> rat" where
  "mean ds = sum_list ds / of_nat (length ds)"

definition median :: "rat list \<Rightarrow> rat" where
  "median ds =
     (let xs = sort ds; n = length xs
      in if odd n then xs ! (n div 2) else (xs ! (n div 2 - 1) + xs ! (n div 2)) / 2)"

record CategoryMetrics =
  m_count :: nat
  average_ms :: rat
  median_ms :: rat
  p95_ms :: "rat option"
  min_ms :: rat
  max_ms :: rat
  threshold_ms :: "rat option"
  threshold_exceeded_count :: nat

text \<open>The statistics of one category, from its non-empty list of durations.\<close>

definition category_metrics :: "(string \<times> rat) list \<Rightarrow> string \<Rightarrow> rat list \<Rightarrow> CategoryMetrics" where
  "category_metrics thr cat ds =
     \<lparr> m_count = length ds,
       average_ms = mean ds,
       median_ms = median ds,
       p95_ms = (if length ds \<ge> 20 then Some (sort ds ! p95_index (length ds)) else None),
       min_ms = Min (set ds),
       max_ms = Max (set ds),
       threshold_ms = map_of thr cat,
       threshold_exceeded_count =
         (case map_of thr cat of None \<Rightarrow> 0 | Some t \<Rightarrow> length (filter (\<lambda>d. d > t) ds)) \<rparr>"

text \<open>
  \<^verbatim>\<open>get_performance_metrics\<close>: one entry per category that has a span with a duration, in
  the order of the history.
\<close>

definition get_performance_metrics :: "PerformanceTracker \<Rightarrow> (string \<times> CategoryMetrics) list" where
  "get_performance_metrics s =
     concat (map (\<lambda>entry.
        if snd entry = [] then []
        else if durations_of (snd entry) = [] then []
        else [(fst entry, category_metrics (thresholds s) (fst entry) (durations_of (snd entry)))])
       (historical_data s))"

subsection \<open>Trackers that the calls can produce\<close>

inductive tracker_reachable :: "(string \<Rightarrow> int) \<Rightarrow> PerformanceTracker \<Rightarrow> bool"
  for hash :: "string \<Rightarrow> int" where
  reach_init: "tracker_reachable hash init_tracker"
| reach_start:
    "tracker_reachable hash s \<Longrightarrow>
     tracker_reachable hash (snd (start_trace hash nm cat req parent md now_id now_start s))"
| reach_end:
    "tracker_reachable hash s \<Longrightarrow> tracker_reachable hash (snd (end_trace trace_id success now s))"
| reach_threshold:
    "tracker_reachable hash s \<Longrightarrow> tracker_reachable hash (set_threshold cat threshold s)"

subsection \<open>Alerts\<close>

datatype AlertSeverity = INFO | WARNING | ERROR | CRITICAL

datatype AlertType = PERFORMANCE | ERROR_RATE | GUARDRAIL | USAGE | SECURITY | SYSTEM

text \<open>The \<^verbatim>\<open>.value\<close> of an alert type, which starts the alert id.\<close>

fun type_value :: "AlertType \<Rightarrow> string" where
  "type_value PERFORMANCE = ''performance''"
| "type_value ERROR_RATE = ''error_rate''"
| "type_value GUARDRAIL = ''guardrail''"
| "type_value USAGE = ''usage''"
| "type_value SECURITY = ''security''"
| "type_value SYSTEM = ''system''"

text \<open>
  A message is a text of the caller or one of the three f-strings of the monitor, kept as
  its template with its arguments (the rendering of the floats is not modelled):
  \<^item> \<open>PerformanceDegradation category p95 threshold\<close> is
    \<^verbatim>\<open>Performance degradation in {category}: p95 latency {p95_ms:.2f}ms exceeds threshold {threshold_ms}ms\<close>;
  \<^item> \<open>HighErrorRate rate max_rate\<close> is
    \<^verbatim>\<open>High error rate: {error_rate:.2%} exceeds threshold {max_rate:.2%}\<close>;
  \<^item> \<open>PerformanceRecovered category p95 threshold\<close> is
    \<^verbatim>\<open>Performance recovered: {category} p95 latency now {p95_ms:.2f}ms (below threshold {threshold_ms}ms)\<close>.
\<close>

datatype message =
    Text string
  | PerformanceDegradation string rat rat
  | HighErrorRate rat rat
  | PerformanceRecovered string rat rat

text \<open>
  The \<^verbatim>\<open>details\<close> dictionary of an alert, with the keys that the monitor writes and
  reads, each absent (\<open>None\<close>) or of the type the monitor gives it. Other keys that a
  caller of \<^verbatim>\<open>trigger_alert\<close> may add are left out.
\<close>

record details =
  d_category :: "string option"
  d_p95_ms :: "rat option"
  d_threshold_ms :: "rat option"
  d_metrics :: "CategoryMetrics option"
  d_error_rate :: "rat option"
  d_threshold :: "rat option"
  d_failed_requests :: "int option"
  d_total_requests :: "int option"

definition no_details :: details where
  "no_details =
     \<lparr> d_category = None, d_p95_ms = None, d_threshold_ms = None, d_metrics = None,
       d_error_rate = None, d_threshold = None, d_failed_requests = None,
       d_total_requests = None \<rparr>"

datatype alert_status = Active | Resolved

text \<open>The alert dictionary; its \<^verbatim>\<open>timestamp\<close> and \<^verbatim>\<open>resolved_at\<close> are kept as the
  \<^verbatim>\<open>datetime\<close> whose ISO rendering the source stores.\<close>

record Alert =
  a_id :: string
  a_type :: AlertType
  a_severity :: AlertSeverity
  a_message :: message
  a_details :: details
  a_timestamp :: datetime
  a_status :: alert_status
  a_resolved_at :: "datetime option"
  a_resolution_message :: "message option"

subsection \<open>AlertSystem\<close>

text \<open>
  The handlers registered for a type are called with every alert of that type that is
  triggered; the two default handlers only write to the log. \<open>handled\<close> is the sequence of
  the alerts handed to the handlers (and written to disk) by \<^verbatim>\<open>trigger_alert\<close>.
\<close>

record AlertSystem =
  alert_thresholds :: "(AlertType \<times> (string \<times> rat) list) list"
  active_alerts :: "(string \<times> Alert) list"
  resolved_alerts :: "Alert list"
  handled :: "Alert list"

definition init_alert_system :: AlertSystem where
  "init_alert_system =
     \<lparr> alert_thresholds =
         [(PERFORMANCE,
             [(''api_request_ms'', 2000), (''llm_call_ms'', 5000), (''tool_execution_ms'', 1000)]),
          (ERROR_RATE, [(''max_error_rate'', 5 / 100), (''window_size'', 100)]),
          (GUARDRAIL, [(''max_block_rate'', 10 / 100)]),
          (USAGE, [(''max_requests_per_minute'', 100), (''max_tokens_per_minute'', 10000)])],
       active_alerts = [], resolved_alerts = [], handled = [] \<rparr>"

text \<open>\<^verbatim>\<open>AlertSystem.set_threshold\<close>.\<close>

definition set_alert_threshold :: "AlertType \<Rightarrow> string \<Rightarrow> rat \<Rightarrow> AlertSystem \<Rightarrow> AlertSystem" where
  "set_alert_threshold ty key v s =
     (let cfg = (case map_of (alert_thresholds s) ty of None \<Rightarrow> [] | Some c \<Rightarrow> c)
      in s\<lparr> alert_thresholds := AList.update ty (AList.update key v cfg) (alert_thresholds s) \<rparr>)"

text \<open>
  The alert id \<^verbatim>\<open>f"{alert_type.value}_{now.strftime('%Y%m%d%H%M%S')}_{hash(message) % 10000}"\<close>;
  \<open>hash\<close> is the hash of the process, on messages.
\<close>

definition alert_id_of :: "(message \<Rightarrow> int) \<Rightarrow> AlertType \<Rightarrow> datetime \<Rightarrow> message \<Rightarrow> string" where
  "alert_id_of hash ty now msg =
     type_value ty @ ''_'' @ strftime_compact now @ ''_'' @ str_int (hash msg mod 10000)"

definition trigger_alert ::
  "(message \<Rightarrow> int) \<Rightarrow> AlertType \<Rightarrow> AlertSeverity \<Rightarrow> message \<Rightarrow> details \<Rightarrow> datetime \<Rightarrow>
   AlertSystem \<Rightarrow> string \<times> AlertSystem" where
  "trigger_alert hash ty severity msg det now s =
     (let alert_id = alert_id_of hash ty now msg;
          alert = \<lparr> a_id = alert_id, a_type = ty, a_severity = severity, a_message = msg,
                    a_details = det, a_timestamp = now, a_status = Active,
                    a_resolved_at = None, a_resolution_message = None \<rparr>
      in (alert_id,
          s\<lparr> active_alerts := AList.update alert_id alert (active_alerts s),
             handled := handled s @ [alert] \<rparr>))"

text \<open>\<^verbatim>\<open>resolve_alert\<close>: \<open>False\<close> and the unchanged system when the id is not active.\<close>

definition resolve_alert ::
  "string \<Rightarrow> message \<Rightarrow> datetime \<Rightarrow> AlertSystem \<Rightarrow> bool \<times> AlertSystem" where
  "resolve_alert alert_id resolution now s =
     (case map_of (active_alerts s) alert_id of
        None \<Rightarrow> (False, s)
      | Some alert \<Rightarrow>
          (True,
           s\<lparr> active_alerts := AList.delete alert_id (active_alerts s),
              resolved_alerts :=
                append_capped 1000 (resolved_alerts s)
                  (alert\<lparr> a_status := Resolved, a_resolved_at := Some now,
                          a_resolution_message := Some resolution \<rparr>) \<rparr>))"

subsection \<open>The background monitor\<close>

text \<open>
  One turn of the loop of \<^verbatim>\<open>_check_performance_alerts\<close>, for the entry \<open>(cat, metrics)\<close>
  of the performance metrics. \<^verbatim>\<open>if p95_ms and ...\<close> is false for an absent p95 and for
  a p95 of zero. The clock is read for the key (\<open>key_now cat\<close>) and again inside
  \<^verbatim>\<open>trigger_alert\<close> (\<open>alert_now cat\<close>).
\<close>

definition performance_step ::
  "(message \<Rightarrow> int) \<Rightarrow> (string \<Rightarrow> datetime) \<Rightarrow> (string \<Rightarrow> datetime) \<Rightarrow> AlertSystem \<Rightarrow>
   string \<times> CategoryMetrics \<Rightarrow> AlertSystem" where
  "performance_step hash key_now alert_now s entry =
     (let cat = fst entry; metrics = snd entry; threshold_key = cat @ ''_ms''
      in case map_of (alert_thresholds s) PERFORMANCE of
           None \<Rightarrow> s
         | Some cfg \<Rightarrow>
             (case map_of cfg threshold_key of
                None \<Rightarrow> s
              | Some threshold \<Rightarrow>
                  (case p95_ms metrics of
                     None \<Rightarrow> s
                   | Some p95 \<Rightarrow>
                       if p95 \<noteq> 0 \<and> p95 > threshold then
                         (let alert_key =
                                ''performance_'' @ cat @ ''_'' @ strftime_hour (key_now cat)
                          in if map_of (active_alerts s) alert_key = None then
                               snd (trigger_alert hash PERFORMANCE WARNING
                                      (PerformanceDegradation cat p95 threshold)
                                      (no_details\<lparr> d_category := Some cat, d_p95_ms := Some p95,
                                                   d_threshold_ms := Some threshold,
                                                   d_metrics := Some metrics \<rparr>)
                                      (alert_now cat) s)
                             else s)
                       else s)))"

definition check_performance_alerts ::
  "(message \<Rightarrow> int) \<Rightarrow> (string \<Rightarrow> datetime) \<Rightarrow> (string \<Rightarrow> datetime) \<Rightarrow> PerformanceTracker \<Rightarrow>
   AlertSystem \<Rightarrow> AlertSystem" where
  "check_performance_alerts hash key_now alert_now tracker s =
     foldl (performance_step hash key_now alert_now) s (get_performance_metrics tracker)"

text \<open>
  \<^verbatim>\<open>_check_error_rate_alerts\<close>, on the snapshot of the collector; \<open>key_now\<close> and
  \<open>alert_now\<close> are its two readings of the clock.
\<close>

definition check_error_rate_alerts ::
  "(message \<Rightarrow> int) \<Rightarrow> datetime \<Rightarrow> datetime \<Rightarrow> MetricsCollector \<Rightarrow> AlertSystem \<Rightarrow> AlertSystem" where
  "check_error_rate_alerts hash key_now alert_now collector s =
     (let current_metrics = get_current_metrics collector
      in case map_of (alert_thresholds s) ERROR_RATE of
           None \<Rightarrow> s
         | Some cfg \<Rightarrow>
             (let max_rate = (case map_of cfg ''max_error_rate'' of None \<Rightarrow> 5 / 100 | Some v \<Rightarrow> v);
                  error_rate = of_int (cm_failed_requests current_metrics) /
                               of_int (max 1 (cm_total_requests current_metrics))
              in if error_rate > max_rate \<and> cm_total_requests current_metrics \<ge> 10 then
                   (let alert_key = ''error_rate_'' @ strftime_hour key_now
                    in if map_of (active_alerts s) alert_key = None then
                         snd (trigger_alert hash ERROR_RATE ERROR
                                (HighErrorRate error_rate max_rate)
                                (no_details\<lparr> d_error_rate := Some error_rate,
                                             d_threshold := Some max_rate,
                                             d_failed_requests :=
                                               Some (cm_failed_requests current_metrics),
                                             d_total_requests :=
                                               Some (cm_total_requests current_metrics) \<rparr>)
                                alert_now s)
                       else s)
                 else s))"

text \<open>
  One turn of the loop of \<^verbatim>\<open>_auto_resolve_alerts\<close>, for the item \<open>(alert_id, alert)\<close> of
  the copy of the active alerts taken when the sweep starts. \<^verbatim>\<open>if category:\<close> is false
  for an absent and for an empty category; \<^verbatim>\<open>p95_ms and threshold_ms and ...\<close> is false
  when either is absent or zero. \<open>now alert_id\<close> is the clock that \<^verbatim>\<open>resolve_alert\<close> reads.
\<close>

definition auto_resolve_step ::
  "(string \<Rightarrow> datetime) \<Rightarrow> PerformanceTracker \<Rightarrow> AlertSystem \<Rightarrow> string \<times> Alert \<Rightarrow> AlertSystem" where
  "auto_resolve_step now tracker s item =
     (let alert_id = fst item; alert = snd item
      in if a_type alert = PERFORMANCE then
           (case d_category (a_details alert) of
              None \<Rightarrow> s
            | Some cat \<Rightarrow>
                if cat = [] then s
                else
                  (case map_of (get_performance_metrics tracker) cat of
                     None \<Rightarrow> s
                   | Some metrics \<Rightarrow>
                       (case p95_ms metrics of
                          None \<Rightarrow> s
                        | Some p95 \<Rightarrow>
                            (case d_threshold_ms (a_details alert) of
                               None \<Rightarrow> s
                             | Some threshold \<Rightarrow>
                                 if p95 \<noteq> 0 \<and> threshold \<noteq> 0 \<and> p95 < threshold then
                                   snd (resolve_alert alert_id
                                          (PerformanceRecovered cat p95 threshold)
                                          (now alert_id) s)
                                 else s))))
         else s)"

definition auto_resolve_alerts ::
  "(string \<Rightarrow> datetime) \<Rightarrow> PerformanceTracker \<Rightarrow> AlertSystem \<Rightarrow> AlertSystem" where
  "auto_resolve_alerts now tracker s = foldl (auto_resolve_step now tracker) s (active_alerts s)"

subsection \<open>Alert systems that the calls can produce\<close>

inductive alert_reachable :: "(message \<Rightarrow> int) \<Rightarrow> AlertSystem \<Rightarrow> bool"
  for hash :: "message \<Rightarrow> int" where
  areach_init: "alert_reachable hash init_alert_system"
| areach_trigger:
    "alert_reachable hash s \<Longrightarrow>
     alert_reachable hash (snd (trigger_alert hash ty severity msg det now s))"
| areach_resolve:
    "alert_reachable hash s \<Longrightarrow> alert_reachable hash (snd (resolve_alert alert_id resolution now s))"
| areach_threshold:
    "alert_reachable hash s \<Longrightarrow> alert_reachable hash (set_alert_threshold ty key v s)"
| areach_performance:
    "alert_reachable hash s \<Longrightarrow>
     alert_reachable hash (check_performance_alerts hash key_now alert_now tracker s)"
| areach_error_rate:
    "alert_reachable hash s \<Longrightarrow>
     alert_reachable hash (check_error_rate_alerts hash key_now' alert_now' collector s)"
| areach_auto_resolve:
    "alert_reachable hash s \<Longrightarrow> alert_reachable hash (auto_resolve_alerts now' tracker s)"

subsection \<open>Notions used to state the properties of the collector\<close>

text \<open>The last \<open>n\<close> elements of a list, in order.\<close>

definition keep_last :: "nat \<Rightarrow> 'a list \<Rightarrow> 'a list" where
  "keep_last n xs = drop (length xs - n) xs"

text \<open>The latency a snapshot carries (every snapshot of a completed context has one).\<close>

definition record_latency :: "HistoricalRecord \<Rightarrow> rat" where
  "record_latency r = (case h_latency_ms r of None \<Rightarrow> 0 | Some l \<Rightarrow> l)"

fun is_start_call :: "collector_call \<Rightarrow> bool" where
  "is_start_call (StartRequest _ _ _ _) = True"
| "is_start_call _ = False"

text \<open>A collector that keeps two records, and three requests completed on it.\<close>

definition ex_small :: MetricsCollector where
  "ex_small = init_collector\<lparr> max_historical := 2 \<rparr>"

definition ex_three :: "collector_call list" where
  "ex_three =
     [StartRequest ''r1'' ''u1'' ''s1'' 10, CompleteRequest ''r1'' True 11,
      StartRequest ''r2'' ''u1'' ''s1'' 20, RecordToolCall ''r2'' ''get_balance'',
      CompleteRequest ''r2'' False 22,
      StartRequest ''r3'' ''u2'' ''s2'' 30, CompleteRequest ''r3'' True 33]"

subsection \<open>Notions used to state the properties of the tracker\<close>

text \<open>The bound that \<^const>\<open>end_trace\<close> keeps: one history per category, of at most 1000 spans.\<close>

definition history_bounded :: "PerformanceTracker \<Rightarrow> bool" where
  "history_bounded s \<longleftrightarrow>
     distinct (map fst (historical_data s)) \<and>
     list_all (\<lambda>entry. length (snd entry) \<le> 1000) (historical_data s)"

text \<open>A hash of names for the examples (any function would do).\<close>

definition ex_name_hash :: "string \<Rightarrow> int" where
  "ex_name_hash nm = int (length nm) * 7919"

text \<open>
  The tracker after \<open>k\<close> spans of one category, started and ended one after the other:
  span \<open>i\<close> is started at second \<open>10 * i\<close> and takes \<open>dur i\<close> milliseconds.
\<close>

fun ex_spans :: "(nat \<Rightarrow> rat) \<Rightarrow> nat \<Rightarrow> PerformanceTracker" where
  "ex_spans dur 0 = init_tracker"
| "ex_spans dur (Suc k) =
     (let started = start_trace ex_name_hash ''op'' ''api_request'' None None None
                      (of_nat (10 * k)) (of_nat (10 * k)) (ex_spans dur k)
      in snd (end_trace (fst started) True (of_nat (10 * k) + dur k / 1000) (snd started)))"

declare ex_spans.simps [simp del]

definition ex_span :: "(nat \<Rightarrow> rat) \<Rightarrow> nat \<Rightarrow> PerformanceData" where
  "ex_span dur k =
     \<lparr> pd_name = ''op'', pd_category = ''api_request'', pd_start_time = of_nat (10 * k),
       pd_end_time = Some (of_nat (10 * k) + dur k / 1000),
       pd_duration_ms = Some (dur k),
       pd_metadata = Some [(''request_id'', PyNone), (''success'', PyBool True)],
       pd_parent = None \<rparr>"

text \<open>Spans of 1, 2, 3, ... milliseconds.\<close>

definition ex_ramp :: "nat \<Rightarrow> rat" where
  "ex_ramp i = of_nat (Suc i)"

text \<open>Twenty spans of three seconds, and after them spans too short for the clock to
  measure (0 milliseconds).\<close>

definition ex_slow_then_fast :: "nat \<Rightarrow> rat" where
  "ex_slow_then_fast i = (if i < 20 then 3000 else 0)"

subsection \<open>Notions used to state the properties of the alert system\<close>

text \<open>The keys of the active alerts are ids that \<^const>\<open>trigger_alert\<close> built, and the error
  rate has its table of thresholds.\<close>

definition is_alert_id :: "(message \<Rightarrow> int) \<Rightarrow> string \<Rightarrow> bool" where
  "is_alert_id hash k \<longleftrightarrow> (\<exists>ty now msg. k = alert_id_of hash ty now msg)"

definition alert_ids_wellformed :: "(message \<Rightarrow> int) \<Rightarrow> AlertSystem \<Rightarrow> bool" where
  "alert_ids_wellformed hash s \<longleftrightarrow>
     list_all (\<lambda>entry. is_alert_id hash (fst entry)) (active_alerts s) \<and>
     map_of (alert_thresholds s) ERROR_RATE \<noteq> None"

text \<open>A hash of messages, clock readings on 4 November 2026, and a collector with 5 failed
  requests out of 20, for the examples.\<close>

definition ex_message_hash :: "message \<Rightarrow> int" where
  "ex_message_hash msg = 4242"

definition ex_time :: "nat \<Rightarrow> nat \<Rightarrow> datetime" where
  "ex_time h m =
     \<lparr> dt_year = 2026, dt_month = 11, dt_day = 4, dt_hour = h, dt_minute = m, dt_second = 0 \<rparr>"

definition ex_failing :: MetricsCollector where
  "ex_failing = init_collector\<lparr> total_requests := 20, successful_requests := 15, failed_requests := 5 \<rparr>"

definition ex_clock :: "nat \<Rightarrow> nat \<Rightarrow> string \<Rightarrow> datetime" where
  "ex_clock h m key = ex_time h m"

text \<open>
  A tracker whose only category, \<^verbatim>\<open>api_request\<close>, has twenty spans of three seconds; the
  same tracker 400 spans of 0 milliseconds later; and the alert system after the
  performance check of 10:00:00 has seen the first of them.
\<close>

definition ex_degraded :: PerformanceTracker where
  "ex_degraded = ex_spans ex_slow_then_fast 20"

definition ex_recovered :: PerformanceTracker where
  "ex_recovered = ex_spans ex_slow_then_fast 420"

definition ex_alerted :: AlertSystem where
  "ex_alerted =
     check_performance_alerts ex_message_hash (ex_clock 10 0) (ex_clock 10 0) ex_degraded
       init_alert_system"

text \<open>
  What the sweep decides for one alert: the resolution message when it resolves the
  alert, \<open>None\<close> when it leaves the alert active; and the alert as the sweep archives it.
\<close>

definition recovery :: "PerformanceTracker \<Rightarrow> Alert \<Rightarrow> message option" where
  "recovery tracker alert =
     (if a_type alert \<noteq> PERFORMANCE then None
      else case d_category (a_details alert) of
             None \<Rightarrow> None
           | Some cat \<Rightarrow>
               (case map_of (get_performance_metrics tracker) cat of
                  None \<Rightarrow> None
                | Some metrics \<Rightarrow>
                    (case (p95_ms metrics, d_threshold_ms (a_details alert)) of
                       (Some p95, Some threshold) \<Rightarrow>
                         if cat \<noteq> [] \<and> p95 \<noteq> 0 \<and> threshold \<noteq> 0 \<and> p95 < threshold
                         then Some (PerformanceRecovered cat p95 threshold) else None
                     | _ \<Rightarrow> None)))"

definition resolved_at_sweep ::
  "(string \<Rightarrow> datetime) \<Rightarrow> PerformanceTracker \<Rightarrow> string \<times> Alert \<Rightarrow> Alert" where
  "resolved_at_sweep now tracker item =
     (snd item)\<lparr> a_status := Resolved, a_resolved_at := Some (now (fst item)),
                 a_resolution_message := recovery tracker (snd item) \<rparr>"

section \<open>Properties of the metrics collector\<close>

lemmas collector_defs =
  init_collector_def start_request_def record_llm_call_def record_tool_call_def
  record_agent_call_def record_guardrail_block_def record_error_def complete_request_def
  new_context_def complete_def context_dict_def append_capped_def counter_incr_def
  counter_get_def Let_def

subsection \<open>The bounded history\<close>

lemma append_capped_keep_last:
  "length xs \<le> cap \<Longrightarrow> append_capped cap xs x = keep_last cap (xs @ [x])"
proof (cases "cap < length xs + 1")
  case True
  assume "length xs \<le> cap"
  with True have "length xs = cap" by simp
  then show ?thesis
    by (cases xs) (simp_all add: append_capped_def keep_last_def Let_def drop_Suc)
next
  case False
  then show ?thesis
    by (simp add: append_capped_def keep_last_def Let_def)
qed

lemma length_append_capped:
  "length xs \<le> cap \<Longrightarrow> length (append_capped cap xs x) \<le> cap"
  by (auto simp: append_capped_def Let_def)

lemma keep_last_keep_last_append:
  "keep_last n (keep_last n xs @ ys) = keep_last n (xs @ ys)"
proof (cases "length xs \<le> n")
  case True
  then show ?thesis by (simp add: keep_last_def)
next
  case False
  then show ?thesis by (simp add: keep_last_def add.commute)
qed

lemma historical_complete:
  "historical_metrics (snd (complete_request rid success now s)) =
     (case fst (complete_request rid success now s) of
        None \<Rightarrow> historical_metrics s
      | Some ctx \<Rightarrow>
          append_capped (max_historical s) (historical_metrics s) (context_dict ctx success))"
  by (simp add: complete_request_def Let_def split: option.splits)

lemma max_historical_call [simp]: "max_historical (call c s) = max_historical s"
  by (cases c)
     (auto simp: start_request_def record_llm_call_def record_tool_call_def
        record_agent_call_def record_guardrail_block_def record_error_def
        complete_request_def Let_def split: option.splits)

lemma historical_no_complete:
  "historical_metrics (snd (start_request rid uid sid now s)) = historical_metrics s"
  "historical_metrics (record_llm_call rid i out s) = historical_metrics s"
  "historical_metrics (record_tool_call rid t s) = historical_metrics s"
  "historical_metrics (record_agent_call rid a s) = historical_metrics s"
  "historical_metrics (record_guardrail_block rid r s) = historical_metrics s"
  "historical_metrics (record_error rid m s) = historical_metrics s"
  by (simp_all add: start_request_def record_llm_call_def record_tool_call_def
        record_agent_call_def record_guardrail_block_def record_error_def
        split: option.splits)

lemma historical_call:
  "historical_metrics (call c s) =
     (case c of
        CompleteRequest rid success now \<Rightarrow>
          (case fst (complete_request rid success now s) of
             None \<Rightarrow> historical_metrics s
           | Some ctx \<Rightarrow> append_capped (max_historical s) (historical_metrics s) (context_dict ctx success))
      | _ \<Rightarrow> historical_metrics s)"
  by (cases c)
     (auto simp: start_request_def record_llm_call_def record_tool_call_def
        record_agent_call_def record_guardrail_block_def record_error_def
        complete_request_def Let_def split: option.splits)

lemma length_historical_call:
  "length (historical_metrics s) \<le> max_historical s \<Longrightarrow>
   length (historical_metrics (call c s)) \<le> max_historical s"
  by (auto simp: historical_call length_append_capped split: collector_call.splits option.splits)

lemma historical_calls:
  "length (historical_metrics s) \<le> max_historical s \<Longrightarrow>
   historical_metrics (calls cs s) =
     keep_last (max_historical s) (historical_metrics s @ completed cs s)"
proof (induction cs arbitrary: s)
  case Nil
  then show ?case by (simp add: keep_last_def)
next
  case (Cons c cs)
  have len: "length (historical_metrics (call c s)) \<le> max_historical (call c s)"
    using Cons.prems by (simp add: length_historical_call)
  have step: "historical_metrics (calls (c # cs) s) =
      keep_last (max_historical s) (historical_metrics (call c s) @ completed cs (call c s))"
    using Cons.IH [OF len] by simp
  show ?case
  proof (cases c)
    case (CompleteRequest rid success now)
    show ?thesis
    proof (cases "fst (complete_request rid success now s)")
      case None
      then show ?thesis using step CompleteRequest by (simp add: historical_complete)
    next
      case (Some ctx)
      then show ?thesis
        using step CompleteRequest Cons.prems
        by (simp add: historical_complete append_capped_keep_last keep_last_keep_last_append)
    qed
  qed (use step in \<open>simp_all add: historical_no_complete\<close>)
qed

text \<open>
  Claim C8. Once more than \<^const>\<open>max_historical\<close> snapshots have been inserted (\<open>N\<close> of
  them, counting those already in a history that respects the bound), the history holds
  exactly \<^const>\<open>max_historical\<close> records: the last ones inserted, in insertion order, so
  that the first retained record is the \<open>(N - max_historical + 1)\<close>-th inserted
  (index \<open>N - max_historical\<close> counting from 0). The sequence of calls is arbitrary:
  starts, records and completions in any order.
\<close>

theorem history_fifo:
  assumes "length (historical_metrics s) \<le> max_historical s"
    and "N = length (historical_metrics s @ completed cs s)"
    and "max_historical s < N"
  shows "length (historical_metrics (calls cs s)) = max_historical s \<and>
         historical_metrics (calls cs s) =
           drop (N - max_historical s) (historical_metrics s @ completed cs s) \<and>
         (\<forall>i < max_historical s.
            historical_metrics (calls cs s) ! i =
              (historical_metrics s @ completed cs s) ! (N - max_historical s + i))"
proof -
  define every where "every = historical_metrics s @ completed cs s"
  have N: "N = length every"
    using assms(2) by (simp add: every_def)
  have eq: "historical_metrics (calls cs s) = drop (N - max_historical s) every"
    using historical_calls [OF assms(1)] N by (simp add: keep_last_def every_def)
  have len: "length (drop (N - max_historical s) every) = max_historical s"
    using N assms(3) by simp
  have nth: "drop (N - max_historical s) every ! i = every ! (N - max_historical s + i)" for i
    using N by simp
  show ?thesis
    unfolding eq every_def [symmetric] using len nth by simp
qed

theorem history_fifo_witness:
  "map h_request_id (completed ex_three ex_small) = [''r1'', ''r2'', ''r3''] \<and>
   length (historical_metrics (calls ex_three ex_small)) = 2 \<and>
   map h_request_id (historical_metrics (calls ex_three ex_small)) = [''r2'', ''r3'']"
proof -
  have c: "map h_request_id (completed ex_three ex_small) = [''r1'', ''r2'', ''r3'']"
    by (simp add: ex_three_def ex_small_def collector_defs)
  have h1: "length (historical_metrics ex_small) \<le> max_historical ex_small"
    by (simp add: ex_small_def init_collector_def)
  have h2: "3 = length (historical_metrics ex_small @ completed ex_three ex_small)"
    using arg_cong [OF c, of length] by (simp add: ex_small_def init_collector_def)
  have h3: "max_historical ex_small < 3"
    by (simp add: ex_small_def)
  have m: "max_historical ex_small = 2" "historical_metrics ex_small = []"
    by (simp_all add: ex_small_def init_collector_def)
  note fifo = history_fifo [OF h1 h2 h3]
  have len: "length (historical_metrics (calls ex_three ex_small)) = 2"
    using conjunct1 [OF fifo] by (simp add: m)
  have "historical_metrics (calls ex_three ex_small) = drop 1 (completed ex_three ex_small)"
    using conjunct1 [OF conjunct2 [OF fifo]] by (simp add: m)
  with c len show ?thesis by (simp add: drop_Suc map_tl)
qed

subsection \<open>Completing a request\<close>

lemma map_of_delete_same: "map_of (AList.delete k al) k = None"
  by (simp add: AList.delete_conv')

text \<open>
  Claim C6. After \<^const>\<open>complete_request\<close> has completed a request, a second call with
  the same id returns \<open>None\<close> and leaves the whole collector as it was: no counter, no
  latency sum and no history record changes.
\<close>

theorem complete_request_twice:
  assumes "complete_request rid success now s = (Some ctx, s')"
  shows "complete_request rid success' now' s' = (None, s')"
proof -
  from assms have "active_contexts s' = AList.delete rid (active_contexts s)"
    by (auto simp: complete_request_def Let_def split: option.splits)
  then have "map_of (active_contexts s') rid = None"
    by (simp add: map_of_delete_same)
  then show ?thesis
    by (simp add: complete_request_def)
qed

theorem complete_request_twice_witness:
  "fst (complete_request ''r1'' True 11 (call (StartRequest ''r1'' ''u1'' ''s1'' 10) init_collector)) \<noteq> None \<and>
   complete_request ''r1'' True 12
     (snd (complete_request ''r1'' True 11 (call (StartRequest ''r1'' ''u1'' ''s1'' 10) init_collector))) =
   (None, snd (complete_request ''r1'' True 11 (call (StartRequest ''r1'' ''u1'' ''s1'' 10) init_collector)))"
proof -
  let ?s = "call (StartRequest ''r1'' ''u1'' ''s1'' 10) init_collector"
  have a: "fst (complete_request ''r1'' True 11 ?s) \<noteq> None"
    by (simp add: collector_defs)
  then obtain ctx where "fst (complete_request ''r1'' True 11 ?s) = Some ctx"
    by auto
  then have h: "complete_request ''r1'' True 11 ?s = (Some ctx, snd (complete_request ''r1'' True 11 ?s))"
    by (simp add: prod_eq_iff)
  from complete_request_twice [OF h, of True 12] a show ?thesis by simp
qed

text \<open>
  Claim C7. For a request id that is not active (never started, or completed already),
  each of the five \<open>record_*\<close> calls returns the collector unchanged.
\<close>

theorem record_calls_unknown_id:
  assumes "map_of (active_contexts s) rid = None"
  shows "record_llm_call rid tokens_in tokens_out s = s \<and>
         record_tool_call rid tool_name s = s \<and>
         record_agent_call rid agent_name s = s \<and>
         record_guardrail_block rid reason s = s \<and>
         record_error rid error_message s = s"
  using assms
  by (simp add: record_llm_call_def record_tool_call_def record_agent_call_def
        record_guardrail_block_def record_error_def)

theorem record_calls_unknown_id_witness:
  "map_of (active_contexts init_collector) ''r9'' = None \<and>
   record_llm_call ''r9'' 10 20 init_collector = init_collector \<and>
   record_tool_call ''r9'' ''get_balance'' init_collector = init_collector \<and>
   record_agent_call ''r9'' ''balance_agent'' init_collector = init_collector \<and>
   record_guardrail_block ''r9'' ''blocked'' init_collector = init_collector \<and>
   record_error ''r9'' ''boom'' init_collector = init_collector"
proof -
  have h: "map_of (active_contexts init_collector) ''r9'' = None"
    by (simp add: init_collector_def)
  from record_calls_unknown_id [OF h] h show ?thesis by simp
qed

lemma map_of_update_same: "map_of (AList.update k v al) k = Some v"
  by (simp add: AList.update_conv')

lemma record_call_keeps:
  assumes "is_record_call c" and "map_of (active_contexts s) rid = Some ctx"
  shows "\<exists>ctx'. map_of (active_contexts (call c s)) rid = Some ctx' \<and>
               start_time ctx' = start_time ctx"
  using assms
  by (cases c)
     (auto simp: record_llm_call_def record_tool_call_def record_agent_call_def
        record_guardrail_block_def record_error_def AList.update_conv'
        split: option.splits)

lemma record_call_frame:
  assumes "is_record_call c"
  shows "successful_requests (call c s) = successful_requests s"
    and "failed_requests (call c s) = failed_requests s"
    and "total_requests (call c s) = total_requests s"
    and "total_latency_ms (call c s) = total_latency_ms s"
    and "historical_metrics (call c s) = historical_metrics s"
  using assms
  by (cases c;
      simp add: record_llm_call_def record_tool_call_def record_agent_call_def
        record_guardrail_block_def record_error_def split: option.splits)+

lemma record_calls_keep:
  assumes "list_all is_record_call rs" and "map_of (active_contexts s) rid = Some ctx"
  shows "\<exists>ctx'. map_of (active_contexts (calls rs s)) rid = Some ctx' \<and>
               start_time ctx' = start_time ctx"
  using assms
proof (induction rs arbitrary: s ctx)
  case Nil
  then show ?case by simp
next
  case (Cons c rs)
  from Cons.prems obtain ctx1 where
    c1: "map_of (active_contexts (call c s)) rid = Some ctx1" "start_time ctx1 = start_time ctx"
    using record_call_keeps [of c s rid ctx] by auto
  from Cons.IH [OF _ c1(1)] Cons.prems(1) c1(2) show ?case by simp
qed

lemma record_calls_frame:
  assumes "list_all is_record_call rs"
  shows "successful_requests (calls rs s) = successful_requests s \<and>
         failed_requests (calls rs s) = failed_requests s \<and>
         total_requests (calls rs s) = total_requests s \<and>
         total_latency_ms (calls rs s) = total_latency_ms s \<and>
         historical_metrics (calls rs s) = historical_metrics s \<and>
         max_historical (calls rs s) = max_historical s"
  using assms
  by (induction rs arbitrary: s) (simp_all add: record_call_frame)

lemma last_append_capped: "0 < cap \<Longrightarrow> last (append_capped cap xs x) = x"
  by (cases xs) (simp_all add: append_capped_def Let_def last_tl)

lemma complete_request_active:
  assumes "map_of (active_contexts s) rid = Some ctx0"
  shows "complete_request rid success now s =
     (Some (complete now ctx0),
      s\<lparr> active_contexts := AList.delete rid (active_contexts s),
         successful_requests :=
           (if success then successful_requests s + 1 else successful_requests s),
         failed_requests :=
           (if success then failed_requests s else failed_requests s + 1),
         total_latency_ms := total_latency_ms s + (now - start_time ctx0) * 1000,
         historical_metrics :=
           append_capped (max_historical s) (historical_metrics s)
             (context_dict (complete now ctx0) success) \<rparr>)"
  using assms by (simp add: complete_request_def Let_def)

text \<open>
  Claim C5. After \<^const>\<open>start_request\<close> at time \<open>t0\<close>, any number of \<open>record_*\<close>
  calls (on any ids) and one \<^const>\<open>complete_request\<close> at time \<open>t1\<close> on the same id, the
  completion succeeds, the record appended to the history is the snapshot of the
  completed context with latency \<open>(t1 - t0) * 1000\<close>, where \<open>t0\<close> and \<open>t1\<close> are the
  context's start and end time, and the sum of the successful and the failed requests has
  grown by exactly one, in the counter that the success flag selects.
\<close>

theorem complete_request_latency:
  assumes "list_all is_record_call rs" and "0 < max_historical s"
    and "s1 = snd (start_request rid uid sid t0 s)"
    and "s2 = calls rs s1"
  shows "\<exists>ctx s3.
           complete_request rid success t1 s2 = (Some ctx, s3) \<and>
           start_time ctx = t0 \<and> end_time ctx = Some t1 \<and>
           last (historical_metrics s3) = context_dict ctx success \<and>
           h_latency_ms (last (historical_metrics s3)) = Some ((t1 - t0) * 1000) \<and>
           latency_ms ctx = Some ((t1 - t0) * 1000) \<and>
           successful_requests s3 + failed_requests s3 =
             successful_requests s + failed_requests s + 1 \<and>
           successful_requests s3 = successful_requests s + (if success then 1 else 0) \<and>
           failed_requests s3 = failed_requests s + (if success then 0 else 1)"
proof -
  have a1: "map_of (active_contexts s1) rid = Some (new_context rid uid sid t0)"
    by (simp add: assms(3) start_request_def map_of_update_same)
  then obtain ctx0 where
    a2: "map_of (active_contexts s2) rid = Some ctx0" and st: "start_time ctx0 = t0"
    using record_calls_keep [OF assms(1) a1] by (auto simp: assms(4) new_context_def)
  have fr: "successful_requests s2 = successful_requests s"
    "failed_requests s2 = failed_requests s" "max_historical s2 = max_historical s"
    using record_calls_frame [OF assms(1), of s1]
    by (simp_all add: assms(3,4) start_request_def)
  show ?thesis
    unfolding complete_request_active [OF a2]
    using st fr assms(2)
    by (simp add: last_append_capped complete_def context_dict_def)
qed

theorem complete_request_latency_witness:
  "\<exists>ctx s3.
     complete_request ''r1'' False 12
       (calls [RecordToolCall ''r1'' ''get_balance'', RecordError ''r1'' ''boom'']
          (snd (start_request ''r1'' ''u1'' ''s1'' 10 init_collector))) = (Some ctx, s3) \<and>
     h_latency_ms (last (historical_metrics s3)) = Some 2000 \<and>
     successful_requests s3 = 0 \<and> failed_requests s3 = 1"
proof -
  have h1: "list_all is_record_call [RecordToolCall ''r1'' ''get_balance'', RecordError ''r1'' ''boom'']"
    by simp
  have h2: "0 < max_historical init_collector"
    by (simp add: init_collector_def)
  from complete_request_latency
    [where rid = "''r1''" and uid = "''u1''" and sid = "''s1''" and ?t0.0 = 10
       and success = False and ?t1.0 = 12,
     OF h1 h2 refl refl]
  show ?thesis by (auto simp: init_collector_def)
qed

subsection \<open>The averages of the snapshot\<close>

lemma counters_call:
  "total_requests (call c s) = total_requests s + (if is_start_call c then 1 else 0)"
  by (cases c)
     (simp_all add: start_request_def record_llm_call_def record_tool_call_def
        record_agent_call_def record_guardrail_block_def record_error_def
        complete_request_def Let_def split: option.splits)

lemma total_requests_calls:
  "total_requests (calls cs s) = total_requests s + int (length (filter is_start_call cs))"
  by (induction cs arbitrary: s) (simp_all add: counters_call)

lemma total_latency_calls:
  "total_latency_ms (calls cs s) =
     total_latency_ms s + sum_list (map record_latency (completed cs s))"
proof (induction cs arbitrary: s)
  case Nil
  then show ?case by simp
next
  case (Cons c cs)
  show ?case
  proof (cases c)
    case (CompleteRequest rid success now)
    then show ?thesis
      using Cons.IH [of "call c s"]
      by (simp add: complete_request_def Let_def record_latency_def context_dict_def
            complete_def split: option.splits)
  qed (use Cons.IH [of "call c s"] in
        \<open>simp_all add: start_request_def record_llm_call_def record_tool_call_def
          record_agent_call_def record_guardrail_block_def record_error_def
          split: option.splits\<close>)
qed

lemma successful_calls:
  "successful_requests (calls cs s) =
     successful_requests s + int (length (filter h_success (completed cs s)))"
proof (induction cs arbitrary: s)
  case Nil
  then show ?case by simp
next
  case (Cons c cs)
  show ?case
  proof (cases c)
    case (CompleteRequest rid success now)
    then show ?thesis
      using Cons.IH [of "call c s"]
      by (simp add: complete_request_def Let_def context_dict_def split: option.splits)
  qed (use Cons.IH [of "call c s"] in
        \<open>simp_all add: start_request_def record_llm_call_def record_tool_call_def
          record_agent_call_def record_guardrail_block_def record_error_def
          split: option.splits\<close>)
qed

text \<open>
  Claim C10. After any sequence of calls on a fresh collector, \<^const>\<open>get_current_metrics\<close>
  reports as total the number of \<^const>\<open>start_request\<close> calls (whether or not the request
  was completed, and also when the id was active already and its context overwritten), as
  average latency the sum of the latencies of the completed requests divided by that
  number of started requests, and as success rate the successful completions divided by
  the started requests. So with one request completed after \<open>L = (t2 - t0) * 1000\<close>
  milliseconds and another still active, the average latency is \<open>L / 2\<close> and the success
  rate \<open>1 / 2\<close>.
\<close>

theorem average_latency_over_started:
  assumes "r1 \<noteq> r2"
    and "n = length (filter is_start_call cs)"
    and "m = get_current_metrics (calls cs init_collector)"
    and "m' = get_current_metrics
          (calls [StartRequest r1 u1 x1 t0, StartRequest r2 u2 x2 t1,
                  CompleteRequest r1 True t2] init_collector)"
  shows "cm_total_requests m = int n \<and>
         cm_average_latency_ms m =
           (if 0 < n then sum_list (map record_latency (completed cs init_collector)) / of_nat n
            else 0) \<and>
         cm_success_rate m =
           of_nat (length (filter h_success (completed cs init_collector))) / of_nat (max 1 n) \<and>
         cm_average_latency_ms m' = ((t2 - t0) * 1000) / 2 \<and>
         cm_success_rate m' = 1 / 2 \<and>
         cm_active_requests m' = 1"
proof -
  have tr: "total_requests (calls cs init_collector) = int n"
    by (simp add: total_requests_calls assms(2) init_collector_def)
  have tl: "total_latency_ms (calls cs init_collector) =
      sum_list (map record_latency (completed cs init_collector))"
    by (simp add: total_latency_calls init_collector_def)
  have sr: "successful_requests (calls cs init_collector) =
      int (length (filter h_success (completed cs init_collector)))"
    by (simp add: successful_calls init_collector_def)
  have mx: "(of_int (max 1 (int n)) :: rat) = of_nat (max 1 n)"
    by (simp add: max_def)
  have general: "cm_total_requests m = int n \<and>
         cm_average_latency_ms m =
           (if 0 < n then sum_list (map record_latency (completed cs init_collector)) / of_nat n
            else 0) \<and>
         cm_success_rate m =
           of_nat (length (filter h_success (completed cs init_collector))) / of_nat (max 1 n)"
    unfolding assms(3) get_current_metrics_def Let_def tr tl sr
    by (simp add: mx)
  have scenario: "cm_average_latency_ms m' = ((t2 - t0) * 1000) / 2 \<and>
         cm_success_rate m' = 1 / 2 \<and> cm_active_requests m' = 1"
    using assms(1)
    by (simp add: assms(4) get_current_metrics_def Let_def init_collector_def
          start_request_def complete_request_def new_context_def complete_def
          context_dict_def append_capped_def)
  from general scenario show ?thesis by simp
qed

theorem average_latency_over_started_witness:
  "cm_average_latency_ms (get_current_metrics
      (calls [StartRequest ''r1'' ''u1'' ''s1'' 10, StartRequest ''r2'' ''u2'' ''s2'' 11,
              CompleteRequest ''r1'' True 12] init_collector)) = 1000 \<and>
   cm_success_rate (get_current_metrics
      (calls [StartRequest ''r1'' ''u1'' ''s1'' 10, StartRequest ''r2'' ''u2'' ''s2'' 11,
              CompleteRequest ''r1'' True 12] init_collector)) = 1 / 2"
proof -
  have h: "''r1'' \<noteq> ''r2''" by simp
  from average_latency_over_started
    [where cs = "[]" and ?u1.0 = "''u1''" and ?x1.0 = "''s1''" and ?t0.0 = 10
       and ?u2.0 = "''u2''" and ?x2.0 = "''s2''" and ?t1.0 = 11 and ?t2.0 = 12,
     OF h refl refl refl]
  show ?thesis by simp
qed

section \<open>Properties of the performance tracker\<close>

subsection \<open>Decimal digits\<close>

lemma digit_char_in: "digit_char d \<in> set ''0123456789''"
  unfolding digit_char_def by (rule nth_mem) simp


lemma str_nat_digits: "set (str_nat n) \<subseteq> set ''0123456789''"
proof (induction n rule: str_nat.induct)
  case (1 n)
  show ?case
  proof (cases "n < 10")
    case True
    then show ?thesis
      using digit_char_in [of n] by (subst str_nat.simps) simp
  next
    case False
    then show ?thesis
      using "1.IH" digit_char_in [of "n mod 10"] by (subst str_nat.simps) simp
  qed
qed



lemma str_int_no_underscore: "CHR ''_'' \<notin> set (str_int i)"
  using str_nat_digits [of "nat i"] str_nat_digits [of "nat (- i)"]
  by (auto simp: str_int_def)



lemma split_at_separator:
  "c \<notin> set a \<Longrightarrow> c \<notin> set b \<Longrightarrow> a @ c # x = b @ c # y \<Longrightarrow> a = b \<and> x = y"
proof (induction a arbitrary: b)
  case Nil
  then show ?case by (cases b) auto
next
  case (Cons h a)
  then show ?case by (cases b) auto
qed

lemma split_at_last_separator:
  assumes "c \<notin> set a" and "c \<notin> set b" and "x @ c # a = y @ c # b"
  shows "x = y \<and> a = b"
proof -
  from assms(3) have "rev (x @ c # a) = rev (y @ c # b)" by simp
  then have "rev a @ c # rev x = rev b @ c # rev y" by simp
  from split_at_separator [OF _ _ this] assms(1,2) show ?thesis by simp
qed

subsection \<open>Trace ids\<close>


lemma str_nat_small: "n < 10 \<Longrightarrow> str_nat n = [digit_char n]"
  by (subst str_nat.simps) simp

lemma str_nat_large: "\<not> n < 10 \<Longrightarrow> str_nat n = str_nat (n div 10) @ [digit_char (n mod 10)]"
  by (subst str_nat.simps) simp




subsection \<open>The float product of the p95 index is exact enough\<close>

lemma bit_length_bounds:
  "0 < p \<Longrightarrow> 2 ^ (bit_length p - 1) \<le> p \<and> p < 2 ^ bit_length p"
proof (induction p rule: bit_length.induct)
  case (1 p)
  show ?case
  proof (cases "p div 2 = 0")
    case True
    with "1.prems" have "p = 1" by auto
    then show ?thesis by (simp add: bit_length.simps)
  next
    case False
    then have pos: "0 < p div 2" by simp
    have bl: "bit_length p = Suc (bit_length (p div 2))"
      using "1.prems" by (subst bit_length.simps) simp
    have nz: "0 < bit_length (p div 2)"
      using pos by (subst bit_length.simps) simp
    from "1.IH" [OF _ pos] "1.prems"
    have ih: "2 ^ (bit_length (p div 2) - 1) \<le> p div 2" "p div 2 < 2 ^ bit_length (p div 2)"
      by simp_all
    from nz have e: "(2::nat) ^ bit_length (p div 2) = 2 * 2 ^ (bit_length (p div 2) - 1)"
      by (cases "bit_length (p div 2)") simp_all
    from ih e show ?thesis
      unfolding bl by simp linarith
  qed
qed

lemma round_at_error:
  "2 * round_at s p \<le> 2 * p + 2 ^ s \<and> 2 * p \<le> 2 * round_at s p + 2 ^ s"
proof -
  define P :: nat where "P = 2 ^ s"
  define q where "q = p div P"
  define r where "r = p mod P"
  have Ppos: "0 < P" by (simp add: P_def)
  have p: "p = q * P + r" by (simp add: q_def r_def)
  have r: "r < P" using Ppos by (simp add: r_def)
  have R: "round_at s p = (if 2 * r > P \<or> (2 * r = P \<and> odd q) then q * P + P else q * P)"
    by (simp add: round_at_def Let_def P_def q_def r_def)
  show ?thesis
    unfolding R P_def [symmetric] using p r by (auto split: if_splits)
qed

lemma round_at_zero: "round_at 0 p = p"
  by (simp add: round_at_def)

lemma round_at_hits:
  assumes "p + d = Q * 2 ^ s" and "2 * d < 2 ^ s"
  shows "round_at s p = Q * 2 ^ s"
proof -
  define P :: nat where "P = 2 ^ s"
  have Ppos: "0 < P" by (simp add: P_def)
  from assms have pd: "p + d = Q * P" and d: "2 * d < P"
    by (simp_all add: P_def)
  show ?thesis
  proof (cases "d = 0")
    case True
    with pd have "p = Q * P" by simp
    then have "p div P = Q" "p mod P = 0" using Ppos by simp_all
    then show ?thesis
      using Ppos by (simp add: round_at_def Let_def P_def [symmetric])
  next
    case False
    with pd Ppos have Q: "0 < Q" by (cases Q) auto
    then obtain Q' where Q': "Q = Suc Q'" by (cases Q) auto
    from pd Q' have p: "p = Q' * P + (P - d)" using d by simp
    have lt: "P - d < P" using False Ppos by simp
    have dv: "p div P = Q'" using p lt Ppos by simp
    have md: "p mod P = P - d" using p lt by simp
    have up: "P < 2 * (P - d)" using d by simp
    show ?thesis
      using dv md up by (simp add: round_at_def Let_def P_def [symmetric] Q')
  qed
qed

lemma float_0_95_value: "20 * float_0_95 + 8 = 19 * 2 ^ 53"
  by (simp add: float_0_95_def)

lemma p95_index_exact:
  assumes "n \<le> 2 ^ 40"
  shows "p95_index n = 19 * n div 20"
proof (cases "n = 0")
  case True
  then show ?thesis
    by (simp add: p95_index_def round_to_53_def bit_length.simps round_at_zero)
next
  case False
  define K :: nat where "K = 2 ^ 53"
  define p where "p = n * float_0_95"
  define s where "s = bit_length p - 53"
  define R where "R = round_at s p"
  define T where "T = 19 * n div 20"
  define e where "e = 19 * n mod 20"
  have Kv: "K = 9007199254740992" by (simp add: K_def)
  have nle: "n \<le> 1099511627776" using assms by simp
  have npos: "0 < n" using False by simp
  have p20: "20 * p + 8 * n = 19 * n * K"
    unfolding p_def Kv by (simp add: float_0_95_def)
  have ppos: "0 < p" using npos by (simp add: p_def float_0_95_def)
  have Te: "19 * n = 20 * T + e" "e < 20"
    by (simp_all add: T_def e_def)
  from bit_length_bounds [OF ppos]
  have lo: "2 ^ (bit_length p - 1) \<le> p" and hi: "p < 2 ^ bit_length p" by simp_all
  have plt: "p < n * K" using npos unfolding p_def Kv float_0_95_def by simp
  have s2n: "2 ^ s < 2 * n"
  proof (cases "bit_length p \<le> 53")
    case True
    then show ?thesis using npos by (simp add: s_def)
  next
    case False
    then have "bit_length p - 1 = s + 52" by (simp add: s_def)
    with lo have "2 ^ s * (2 ^ 52 :: nat) \<le> p" by (simp add: power_add)
    with plt have "2 ^ s * (4503599627370496 :: nat) < n * 9007199254740992"
      unfolding Kv by simp
    then show ?thesis by simp
  qed
  have err: "2 * R \<le> 2 * p + 2 ^ s" "2 * p \<le> 2 * R + 2 ^ s"
    using round_at_error [of s p] by (simp_all add: R_def)
  have idx: "p95_index n = R div K"
    by (simp add: p95_index_def round_to_53_def R_def s_def p_def K_def)
  have "K * T \<le> R \<and> R < K * T + K"
  proof (cases "e = 0")
    case False
    then have e1: "1 \<le> e" by simp
    have a: "p < R + n" "R < p + n"
      using err s2n by linarith+
    have "19 * n * K = (20 * T + e) * K"
      using Te by simp
    with p20 have c: "20 * p + 8 * n = 20 * (K * T) + e * K"
      by (simp add: algebra_simps)
    have d: "28 * n \<le> K"
      using nle unfolding Kv by simp
    have eK: "K \<le> e * K" "e * K \<le> 19 * K"
      using e1 Te(2) by simp_all
    from a c d eK have "K * T \<le> R"
      by linarith
    moreover from a c d eK have "R < K * T + K"
      by linarith
    ultimately show ?thesis by simp
  next
    case True
    with Te have n20: "19 * n = 20 * T" by simp
    define k where "k = n - T"
    from n20 have nk: "n = 20 * k" unfolding k_def by linarith
    with n20 have Tk: "T = 19 * k" by simp
    have kpos: "0 < k" using npos nk by simp
    have pk: "p + 8 * k = T * K"
      using p20 nk Tk by simp
    have pK: "K \<le> p" using pk kpos Tk unfolding Kv by simp
    with hi have "(2::nat) ^ 53 < 2 ^ bit_length p" by (simp add: K_def)
    then have b53: "53 < bit_length p"
      using power_less_imp_less_exp [of "2::nat" 53 "bit_length p"] by simp
    then have "bit_length p = s + 53" by (simp add: s_def)
    with hi have hi': "p < 2 ^ s * K" by (simp add: power_add K_def)
    have d: "2 * (8 * k) < 2 ^ s"
    proof (rule ccontr)
      assume "\<not> 2 * (8 * k) < 2 ^ s"
      then have "2 ^ s \<le> 16 * k" by simp
      then have "2 ^ s * K \<le> 16 * k * K" by simp
      with hi' pk Tk kpos show False unfolding Kv by simp
    qed
    from s2n nle have "(2::nat) ^ s < 2 ^ 41" by simp
    then have s41: "s < 41"
      using power_less_imp_less_exp [of "2::nat" s 41] by simp
    then have "K = 2 ^ (53 - s) * 2 ^ s"
      by (simp add: K_def power_add [symmetric])
    then have "p + 8 * k = (T * 2 ^ (53 - s)) * 2 ^ s"
      using pk by (simp add: mult.assoc)
    from round_at_hits [OF this d] have "R = T * 2 ^ (53 - s) * 2 ^ s"
      by (simp add: R_def)
    also have "\<dots> = T * K"
      using \<open>K = 2 ^ (53 - s) * 2 ^ s\<close> by (simp add: mult.assoc)
    finally show ?thesis unfolding Kv by simp
  qed
  then have "R div K = T"
    by (intro div_nat_eqI) simp_all
  with idx show ?thesis by (simp add: T_def)
qed

subsection \<open>The histories stay bounded\<close>

lemma set_alist_update:
  "p \<in> set (AList.update k v al) \<Longrightarrow> p = (k, v) \<or> p \<in> set al"
  by (induction al) (auto split: if_splits)

lemma history_bounded_end_trace:
  assumes "history_bounded s"
  shows "history_bounded (snd (end_trace trace_id success now s))"
proof (cases "map_of (traces s) trace_id")
  case None
  with assms show ?thesis by (simp add: end_trace_def)
next
  case (Some t0)
  define cat where "cat = pd_category t0"
  define hist where "hist = (case map_of (historical_data s) cat of None \<Rightarrow> [] | Some h \<Rightarrow> h)"
  have "length hist \<le> 1000"
  proof (cases "map_of (historical_data s) cat")
    case None
    then show ?thesis by (simp add: hist_def)
  next
    case (Some h)
    then have "(cat, h) \<in> set (historical_data s)" by (rule map_of_SomeD)
    with assms have "length h \<le> 1000"
      by (auto simp: history_bounded_def list_all_iff)
    with Some show ?thesis by (simp add: hist_def)
  qed
  then have len: "length (append_capped 1000 hist x) \<le> 1000" for x
    by (rule length_append_capped)
  have hd: "\<exists>x. historical_data (snd (end_trace trace_id success now s)) =
      AList.update cat (append_capped 1000 hist x) (historical_data s)"
    using Some by (auto simp: end_trace_def Let_def cat_def hist_def complete_data_def)
  then obtain x where eq: "historical_data (snd (end_trace trace_id success now s)) =
      AList.update cat (append_capped 1000 hist x) (historical_data s)" ..
  show ?thesis
    using assms len [of x] unfolding history_bounded_def eq list_all_iff
    by (auto simp: AList.distinct_update dest!: set_alist_update)
qed

lemma history_bounded_reachable: "tracker_reachable hash s \<Longrightarrow> history_bounded s"
proof (induction rule: tracker_reachable.induct)
  case reach_init
  show ?case by (simp add: history_bounded_def init_tracker_def set_threshold_def)
next
  case (reach_start s nm cat req parent md now_id now_start)
  then show ?case by (simp add: history_bounded_def start_trace_def Let_def)
next
  case (reach_end s trace_id success now)
  then show ?case by (simp add: history_bounded_end_trace)
next
  case (reach_threshold s cat threshold)
  then show ?case by (simp add: history_bounded_def set_threshold_def)
qed

lemma get_performance_metrics_entry:
  assumes "(cat, m) \<in> set (get_performance_metrics s)"
  shows "\<exists>ts. (cat, ts) \<in> set (historical_data s) \<and> durations_of ts \<noteq> [] \<and>
              m = category_metrics (thresholds s) cat (durations_of ts)"
  using assms by (auto simp: get_performance_metrics_def split: if_splits)

lemma length_durations_of: "length (durations_of ts) \<le> length ts"
  by (simp add: durations_of_def map_filter_def)

lemma floor_95_percent: "nat \<lfloor>(95 / 100 :: rat) * of_nat n\<rfloor> = 19 * n div 20"
proof -
  have "(95 / 100 :: rat) * of_nat n = of_nat (19 * n) / of_nat 20" by simp
  then show ?thesis by (simp only: floor_divide_of_nat_eq nat_int)
qed

subsection \<open>The p95 of a category\<close>

lemma sorted_of_nat_upt: "sorted (map rat_of_nat [a..<b])"
  by (induction b) (auto simp: sorted_append)

text \<open>
  Claim C2. For every category that \<^const>\<open>get_performance_metrics\<close> reports on a tracker
  that the calls can produce, with \<open>ts\<close> the history of the category and \<open>n\<close> the number
  of its durations: the p95 is absent when \<open>n < 20\<close>, and otherwise it is the element of
  the ascending durations at the index \<open>floor (0.95 * n)\<close> counted from 0, which is
  within the list. (The source computes the index as a float product; it is that floor
  for every length a history can have.) In particular the p95 of the twenty durations
  1, 2, ..., 20 is the twentieth, 20.
\<close>

theorem p95_of_every_category:
  assumes "tracker_reachable hash s" and "(cat, m) \<in> set (get_performance_metrics s)"
  shows "(\<exists>ts. map_of (historical_data s) cat = Some ts \<and>
            m_count m = length (durations_of ts) \<and>
            (length (durations_of ts) < 20 \<longrightarrow> p95_ms m = None) \<and>
            (20 \<le> length (durations_of ts) \<longrightarrow>
               nat \<lfloor>(95 / 100 :: rat) * of_nat (length (durations_of ts))\<rfloor>
                 < length (durations_of ts) \<and>
               p95_ms m =
                 Some (sort (durations_of ts) !
                         nat \<lfloor>(95 / 100 :: rat) * of_nat (length (durations_of ts))\<rfloor>))) \<and>
         p95_ms (category_metrics thr c (map of_nat [1..<21])) = Some 20"
proof -
  from get_performance_metrics_entry [OF assms(2)] obtain ts where
    ts: "(cat, ts) \<in> set (historical_data s)" and
    m: "m = category_metrics (thresholds s) cat (durations_of ts)"
    by blast
  from history_bounded_reachable [OF assms(1)] have
    d: "distinct (map fst (historical_data s))" and
    b: "list_all (\<lambda>entry. length (snd entry) \<le> 1000) (historical_data s)"
    by (simp_all add: history_bounded_def)
  from d ts have look: "map_of (historical_data s) cat = Some ts" by simp
  from b ts have "length ts \<le> 1000" by (auto simp: list_all_iff)
  define n where "n = length (durations_of ts)"
  define i where "i = nat \<lfloor>(95 / 100 :: rat) * of_nat n\<rfloor>"
  have i: "i = 19 * n div 20"
    unfolding i_def by (rule floor_95_percent)
  from \<open>length ts \<le> 1000\<close> length_durations_of [of ts] have "n \<le> 2 ^ 40"
    by (simp add: n_def)
  then have idx: "p95_index n = i"
    by (simp only: p95_index_exact i)
  have p: "p95_ms m = (if 20 \<le> n then Some (sort (durations_of ts) ! i) else None)"
    by (simp add: m category_metrics_def n_def [symmetric] idx)
  have cnt: "m_count m = n"
    by (simp add: m category_metrics_def n_def)
  have r: "20 \<le> n \<Longrightarrow> i < n"
    using i by simp
  have "map_of (historical_data s) cat = Some ts \<and> m_count m = n \<and>
      (n < 20 \<longrightarrow> p95_ms m = None) \<and>
      (20 \<le> n \<longrightarrow> i < n \<and> p95_ms m = Some (sort (durations_of ts) ! i))"
    using look p cnt r by simp
  then have first: "\<exists>ts. map_of (historical_data s) cat = Some ts \<and>
            m_count m = length (durations_of ts) \<and>
            (length (durations_of ts) < 20 \<longrightarrow> p95_ms m = None) \<and>
            (20 \<le> length (durations_of ts) \<longrightarrow>
               nat \<lfloor>(95 / 100 :: rat) * of_nat (length (durations_of ts))\<rfloor>
                 < length (durations_of ts) \<and>
               p95_ms m =
                 Some (sort (durations_of ts) !
                         nat \<lfloor>(95 / 100 :: rat) * of_nat (length (durations_of ts))\<rfloor>))"
    unfolding i_def n_def by (rule exI [of _ ts])
  have twenty: "p95_index 20 = 19"
    by (simp add: p95_index_exact)
  have "sort (map rat_of_nat [1..<21]) = map rat_of_nat [1..<21]"
    by (rule sorted_sort_id) (rule sorted_of_nat_upt)
  then have "p95_ms (category_metrics thr c (map of_nat [1..<21])) = Some 20"
    by (simp add: category_metrics_def twenty del: upt_Suc)
  with first show ?thesis by blast
qed


lemma ex_spans_reachable: "tracker_reachable ex_name_hash (ex_spans dur k)"
  by (induction k) (auto simp: Let_def ex_spans.simps intro: tracker_reachable.intros)

lemma start_end_trace_history:
  "historical_data
     (snd (end_trace (fst (start_trace hash nm cat req parent md t0 t1 s)) success t2
             (snd (start_trace hash nm cat req parent md t0 t1 s)))) =
   AList.update cat
     (append_capped 1000 (case map_of (historical_data s) cat of None \<Rightarrow> [] | Some h \<Rightarrow> h)
        \<lparr> pd_name = nm, pd_category = cat, pd_start_time = t1, pd_end_time = Some t2,
          pd_duration_ms = Some ((t2 - t1) * 1000),
          pd_metadata = Some (AList.update ''success'' (PyBool success) (initial_metadata req md)),
          pd_parent = parent \<rparr>)
     (historical_data s)"
  by (simp add: start_trace_def end_trace_def Let_def map_of_update_same complete_data_def)

lemma ex_span_new:
  "\<lparr> pd_name = ''op'', pd_category = ''api_request'', pd_start_time = of_nat (10 * k),
     pd_end_time = Some (of_nat (10 * k) + dur k / 1000),
     pd_duration_ms = Some ((of_nat (10 * k) + dur k / 1000 - of_nat (10 * k)) * 1000),
     pd_metadata = Some (AList.update ''success'' (PyBool True) (initial_metadata None None)),
     pd_parent = None \<rparr> = ex_span dur k"
  by (simp add: ex_span_def initial_metadata_def)

lemma ex_spans_history:
  "k < 1000 \<Longrightarrow>
   historical_data (ex_spans dur (Suc k)) = [(''api_request'', map (ex_span dur) [0..<Suc k])]"
proof (induction k)
  case 0
  have "historical_data (ex_spans dur (Suc 0)) =
      AList.update ''api_request'' (append_capped 1000 [] (ex_span dur 0)) []"
    unfolding ex_spans.simps Let_def start_end_trace_history
    by (simp add: init_tracker_def set_threshold_def ex_span_new [of 0 dur, simplified])
  then show ?case
    by (simp add: append_capped_def)
next
  case (Suc k)
  then have ih:
    "historical_data (ex_spans dur (Suc k)) = [(''api_request'', map (ex_span dur) [0..<Suc k])]"
    by simp
  have "historical_data (ex_spans dur (Suc (Suc k))) =
      AList.update ''api_request''
        (append_capped 1000 (map (ex_span dur) [0..<Suc k]) (ex_span dur (Suc k)))
        [(''api_request'', map (ex_span dur) [0..<Suc k])]"
    unfolding ex_spans.simps(2) [of dur "Suc k"] Let_def start_end_trace_history ih ex_span_new
    by simp
  with Suc.prems show ?case
    by (simp add: append_capped_def)
qed

lemma durations_of_ex_spans: "durations_of (map (ex_span dur) [0..<n]) = map dur [0..<n]"
  by (induction n) (simp_all add: durations_of_def map_filter_def ex_span_def)

lemma get_performance_metrics_ex_spans:
  assumes "0 < n" and "n \<le> 1000"
  shows "get_performance_metrics (ex_spans dur n) =
     [(''api_request'',
       category_metrics (thresholds (ex_spans dur n)) ''api_request'' (map dur [0..<n]))]"
proof -
  from assms obtain k where n: "n = Suc k" and k: "k < 1000"
    by (cases n) auto
  have ne: "map (ex_span dur) [0..<Suc k] \<noteq> []" "map dur [0..<Suc k] \<noteq> []"
    by simp_all
  show ?thesis
    unfolding n get_performance_metrics_def ex_spans_history [OF k]
    using ne by (simp add: durations_of_ex_spans del: upt_Suc)
qed

lemma sorted_ex_ramp: "sorted (map ex_ramp [0..<n])"
  by (induction n) (auto simp: sorted_append ex_ramp_def)

theorem p95_of_every_category_witness:
  "tracker_reachable ex_name_hash (ex_spans ex_ramp 20) \<and>
   map fst (get_performance_metrics (ex_spans ex_ramp 20)) = [''api_request''] \<and>
   map (\<lambda>e. p95_ms (snd e)) (get_performance_metrics (ex_spans ex_ramp 20)) = [Some 20]"
proof -
  let ?ds = "map ex_ramp [0..<20]"
  let ?m = "category_metrics (thresholds (ex_spans ex_ramp 20)) ''api_request'' ?ds"
  have hist: "historical_data (ex_spans ex_ramp 20) =
      [(''api_request'', map (ex_span ex_ramp) [0..<20])]"
    using ex_spans_history [of 19 ex_ramp] by simp
  have ds20: "length ?ds = 20" by simp
  have metrics: "get_performance_metrics (ex_spans ex_ramp 20) = [(''api_request'', ?m)]"
    by (rule get_performance_metrics_ex_spans) simp_all
  have reach: "tracker_reachable ex_name_hash (ex_spans ex_ramp 20)"
    by (rule ex_spans_reachable)
  have mem: "(''api_request'', ?m) \<in> set (get_performance_metrics (ex_spans ex_ramp 20))"
    by (simp add: metrics)
  from p95_of_every_category [OF reach mem] obtain ts where
    ts: "map_of (historical_data (ex_spans ex_ramp 20)) ''api_request'' = Some ts" and
    p: "20 \<le> length (durations_of ts) \<longrightarrow>
          p95_ms ?m = Some (sort (durations_of ts) !
            nat \<lfloor>(95 / 100 :: rat) * of_nat (length (durations_of ts))\<rfloor>)"
    by blast
  from ts have "ts = map (ex_span ex_ramp) [0..<20]" by (simp add: hist)
  then have d: "durations_of ts = ?ds" by (simp only: durations_of_ex_spans)
  have i: "nat \<lfloor>(95 / 100 :: rat) * of_nat (length ?ds)\<rfloor> = 19"
    unfolding ds20 floor_95_percent by simp
  have srt: "sort ?ds = ?ds"
    by (rule sorted_sort_id) (rule sorted_ex_ramp)
  have "?ds ! 19 = 20" by (simp add: ex_ramp_def del: upt_Suc)
  with p have "p95_ms ?m = Some 20"
    unfolding d i srt using ds20 by simp
  with reach metrics show ?thesis by simp
qed

section \<open>Properties of the alert system\<close>

subsection \<open>An hour key is never the id of an alert\<close>

lemma digits_no_underscore: "CHR ''_'' \<notin> set (digits w n)"
proof (induction w arbitrary: n)
  case 0
  show ?case by simp
next
  case (Suc w)
  from digit_char_in [of "n mod 10"] have "digit_char (n mod 10) \<noteq> CHR ''_''" by auto
  with Suc show ?case by simp
qed

lemma length_digits: "length (digits w n) = w"
  by (induction w arbitrary: n) simp_all

lemma strftime_compact_shape:
  "length (strftime_compact dt) = 14" "CHR ''_'' \<notin> set (strftime_compact dt)"
  by (simp_all add: strftime_compact_def length_digits digits_no_underscore)

lemma alert_id_not_hour_key:
  "alert_id_of hash ty now msg \<noteq> prefix @ ''_'' @ strftime_hour key_now"
proof
  let ?date = "digits 4 (dt_year key_now) @ digits 2 (dt_month key_now) @ digits 2 (dt_day key_now)"
  assume "alert_id_of hash ty now msg = prefix @ ''_'' @ strftime_hour key_now"
  then have "(type_value ty @ CHR ''_'' # strftime_compact now) @
        CHR ''_'' # str_int (hash msg mod 10000) =
      (prefix @ CHR ''_'' # ?date) @ CHR ''_'' # digits 2 (dt_hour key_now)"
    by (simp add: alert_id_of_def strftime_hour_def)
  from split_at_last_separator [OF str_int_no_underscore digits_no_underscore this]
  have "type_value ty @ CHR ''_'' # strftime_compact now = prefix @ CHR ''_'' # ?date"
    by simp
  from split_at_last_separator [OF strftime_compact_shape(2) _ this]
  have "strftime_compact now = ?date"
    by (simp add: digits_no_underscore)
  then have "length (strftime_compact now) = length ?date" by simp
  then show False
    by (simp add: strftime_compact_shape length_digits)
qed

subsection \<open>The ids of the active alerts\<close>

lemma list_all_alist_update:
  "P (k, v) \<Longrightarrow> list_all P al \<Longrightarrow> list_all P (AList.update k v al)"
  by (induction al) auto

lemma list_all_alist_delete: "list_all P al \<Longrightarrow> list_all P (AList.delete k al)"
  by (induction al) auto

lemma hour_key_not_active:
  assumes "alert_ids_wellformed hash s"
  shows "map_of (active_alerts s) (prefix @ ''_'' @ strftime_hour key_now) = None"
proof -
  have "prefix @ ''_'' @ strftime_hour key_now \<notin> fst ` set (active_alerts s)"
  proof
    assume "prefix @ ''_'' @ strftime_hour key_now \<in> fst ` set (active_alerts s)"
    with assms have "is_alert_id hash (prefix @ ''_'' @ strftime_hour key_now)"
      unfolding alert_ids_wellformed_def list_all_iff by auto
    then obtain ty now msg where
      "prefix @ ''_'' @ strftime_hour key_now = alert_id_of hash ty now msg"
      unfolding is_alert_id_def by blast
    with alert_id_not_hour_key [of hash ty now msg prefix key_now] show False by simp
  qed
  then show ?thesis by (simp add: map_of_eq_None_iff)
qed

lemma wellformed_trigger:
  assumes "alert_ids_wellformed hash s"
  shows "alert_ids_wellformed hash (snd (trigger_alert hash ty severity msg det now s))"
proof -
  have "is_alert_id hash (alert_id_of hash ty now msg)"
    unfolding is_alert_id_def by blast
  with assms show ?thesis
    unfolding alert_ids_wellformed_def
    by (simp add: trigger_alert_def Let_def list_all_alist_update)
qed

lemma wellformed_resolve:
  "alert_ids_wellformed hash s \<Longrightarrow>
   alert_ids_wellformed hash (snd (resolve_alert alert_id resolution now s))"
  unfolding alert_ids_wellformed_def
  by (auto simp: resolve_alert_def list_all_alist_delete split: option.splits)

lemma wellformed_threshold:
  "alert_ids_wellformed hash s \<Longrightarrow> alert_ids_wellformed hash (set_alert_threshold ty key v s)"
  unfolding alert_ids_wellformed_def
  by (simp add: set_alert_threshold_def Let_def AList.update_conv')

lemma wellformed_foldl:
  assumes "\<And>s x. P s \<Longrightarrow> P (f s x)" and "P s"
  shows "P (foldl f s xs)"
  using assms(2) by (induction xs arbitrary: s) (simp_all add: assms(1))

lemma wellformed_performance_step:
  "alert_ids_wellformed hash s \<Longrightarrow>
   alert_ids_wellformed hash (performance_step hash key_now alert_now s entry)"
  by (simp add: performance_step_def Let_def wellformed_trigger split: option.splits)

lemma wellformed_auto_resolve_step:
  "alert_ids_wellformed hash s \<Longrightarrow>
   alert_ids_wellformed hash (auto_resolve_step now tracker s item)"
  by (simp add: auto_resolve_step_def Let_def wellformed_resolve split: option.splits)

lemma wellformed_error_rate:
  "alert_ids_wellformed hash s \<Longrightarrow>
   alert_ids_wellformed hash (check_error_rate_alerts hash key_now alert_now collector s)"
  by (simp add: check_error_rate_alerts_def Let_def wellformed_trigger split: option.splits)

lemma wellformed_reachable: "alert_reachable hash s \<Longrightarrow> alert_ids_wellformed hash s"
proof (induction rule: alert_reachable.induct)
  case areach_init
  show ?case by (simp add: alert_ids_wellformed_def init_alert_system_def)
next
  case (areach_performance s key_now alert_now tracker)
  then show ?case
    unfolding check_performance_alerts_def
    by (intro wellformed_foldl [where P = "alert_ids_wellformed hash"])
       (simp_all add: wellformed_performance_step)
next
  case (areach_auto_resolve s now' tracker)
  then show ?case
    unfolding auto_resolve_alerts_def
    by (intro wellformed_foldl [where P = "alert_ids_wellformed hash"])
       (simp_all add: wellformed_auto_resolve_step)
qed (simp_all add: wellformed_trigger wellformed_resolve wellformed_threshold wellformed_error_rate)

subsection \<open>The error-rate detector\<close>

text \<open>
  Claim C9. On every alert system that the calls can produce, the error-rate check hands
  a new active alert of type \<open>error_rate\<close> and severity \<open>error\<close> to the handlers if and only
  if the failed requests divided by \<open>max 1\<close> of the total requests, both lifetime counters
  of the collector, exceed the configured \<^verbatim>\<open>max_error_rate\<close> and at least 10 requests were
  started; otherwise, and so whenever fewer than 10 requests were started, it leaves the
  system as it was. (The check looks for an active alert under the key of the hour before
  it triggers; no alert id is such a key, so the look-up never finds one.)
\<close>

theorem error_rate_alert_iff:
  assumes "alert_reachable hash s"
    and "s' = check_error_rate_alerts hash key_now alert_now collector s"
    and "rate = of_int (failed_requests collector) / of_int (max 1 (total_requests collector))"
  shows "\<exists>cfg max_error_rate.
           map_of (alert_thresholds s) ERROR_RATE = Some cfg \<and>
           max_error_rate = (case map_of cfg ''max_error_rate'' of None \<Rightarrow> 5 / 100 | Some v \<Rightarrow> v) \<and>
           ((\<exists>a. handled s' = handled s @ [a] \<and> a_type a = ERROR_RATE \<and> a_severity a = ERROR \<and>
                 a_status a = Active \<and> map_of (active_alerts s') (a_id a) = Some a)
              \<longleftrightarrow> rate > max_error_rate \<and> 10 \<le> total_requests collector) \<and>
           (\<not> (rate > max_error_rate \<and> 10 \<le> total_requests collector) \<longrightarrow> s' = s) \<and>
           (total_requests collector < 10 \<longrightarrow> s' = s)"
proof -
  from wellformed_reachable [OF assms(1)] have wf: "alert_ids_wellformed hash s" .
  then obtain cfg where cfg: "map_of (alert_thresholds s) ERROR_RATE = Some cfg"
    by (auto simp: alert_ids_wellformed_def)
  define max_error_rate where
    "max_error_rate = (case map_of cfg ''max_error_rate'' of None \<Rightarrow> 5 / 100 | Some v \<Rightarrow> v)"
  define cond where "cond \<longleftrightarrow> rate > max_error_rate \<and> 10 \<le> total_requests collector"
  have key: "map_of (active_alerts s) (''error_rate_'' @ strftime_hour key_now) = None"
    using hour_key_not_active [OF wf, of "''error_rate''" key_now]
    by (simp only: append.simps)
  define det where "det = no_details\<lparr> d_error_rate := Some rate, d_threshold := Some max_error_rate,
      d_failed_requests := Some (failed_requests collector),
      d_total_requests := Some (total_requests collector) \<rparr>"
  have m: "cm_failed_requests (get_current_metrics collector) = failed_requests collector"
    "cm_total_requests (get_current_metrics collector) = total_requests collector"
    by (simp_all add: get_current_metrics_def)
  have step: "s' = (if cond then
        snd (trigger_alert hash ERROR_RATE ERROR (HighErrorRate rate max_error_rate) det alert_now s)
      else s)"
    unfolding assms(2) check_error_rate_alerts_def Let_def m cfg option.case key
      assms(3) [symmetric] max_error_rate_def [symmetric] det_def cond_def
    by simp
  have not_cond: "\<not> cond \<Longrightarrow> s' = s"
    by (simp add: step)
  have triggered: "cond \<Longrightarrow> \<exists>a. handled s' = handled s @ [a] \<and> a_type a = ERROR_RATE \<and>
      a_severity a = ERROR \<and> a_status a = Active \<and> map_of (active_alerts s') (a_id a) = Some a"
    by (simp add: step trigger_alert_def Let_def AList.update_conv')
  have silent: "\<not> cond \<Longrightarrow> \<not> (\<exists>a. handled s' = handled s @ [a])"
    by (simp add: not_cond)
  have small: "total_requests collector < 10 \<Longrightarrow> \<not> cond"
    by (simp add: cond_def)
  have "((\<exists>a. handled s' = handled s @ [a] \<and> a_type a = ERROR_RATE \<and> a_severity a = ERROR \<and>
                 a_status a = Active \<and> map_of (active_alerts s') (a_id a) = Some a) \<longleftrightarrow> cond) \<and>
      (\<not> cond \<longrightarrow> s' = s) \<and> (total_requests collector < 10 \<longrightarrow> s' = s)"
    using triggered silent not_cond small by blast
  then show ?thesis
    unfolding cond_def using cfg max_error_rate_def by blast
qed

theorem error_rate_alert_iff_witness:
  "alert_reachable ex_message_hash init_alert_system \<and>
   map a_type (handled (check_error_rate_alerts ex_message_hash (ex_time 10 0) (ex_time 10 0)
     ex_failing init_alert_system)) = [ERROR_RATE] \<and>
   map a_severity (handled (check_error_rate_alerts ex_message_hash (ex_time 10 0) (ex_time 10 0)
     ex_failing init_alert_system)) = [ERROR]"
proof -
  let ?s' = "check_error_rate_alerts ex_message_hash (ex_time 10 0) (ex_time 10 0)
     ex_failing init_alert_system"
  have reach: "alert_reachable ex_message_hash init_alert_system"
    by (rule areach_init)
  from error_rate_alert_iff [OF reach refl refl, of "ex_time 10 0" "ex_time 10 0" ex_failing]
  obtain cfg max_error_rate where
    cfg: "map_of (alert_thresholds init_alert_system) ERROR_RATE = Some cfg" and
    mx: "max_error_rate = (case map_of cfg ''max_error_rate'' of None \<Rightarrow> 5 / 100 | Some v \<Rightarrow> v)" and
    iff: "(\<exists>a. handled ?s' = handled init_alert_system @ [a] \<and> a_type a = ERROR_RATE \<and>
             a_severity a = ERROR \<and> a_status a = Active \<and>
             map_of (active_alerts ?s') (a_id a) = Some a) \<longleftrightarrow>
          rat_of_int (failed_requests ex_failing) / rat_of_int (max 1 (total_requests ex_failing))
            > max_error_rate \<and> 10 \<le> total_requests ex_failing"
    by blast
  from cfg have "cfg = [(''max_error_rate'', 5 / 100), (''window_size'', 100)]"
    by (simp add: init_alert_system_def)
  with mx have "max_error_rate = 5 / 100" by simp
  then have "rat_of_int (failed_requests ex_failing) / rat_of_int (max 1 (total_requests ex_failing))
            > max_error_rate \<and> 10 \<le> total_requests ex_failing"
    by (simp add: ex_failing_def)
  with iff obtain a where "handled ?s' = handled init_alert_system @ [a]"
    "a_type a = ERROR_RATE" "a_severity a = ERROR"
    by blast
  with reach show ?thesis by (simp add: init_alert_system_def)
qed

subsection \<open>The example trackers\<close>

lemma map_upt_const:
  "(\<And>i. a \<le> i \<Longrightarrow> i < b \<Longrightarrow> f i = c) \<Longrightarrow> map f [a..<b] = replicate (b - a) c"
proof (induction b)
  case 0
  show ?case by simp
next
  case (Suc b)
  show ?case
  proof (cases "a \<le> b")
    case True
    with Suc have "map f [a..<b] = replicate (b - a) c" "f b = c" by simp_all
    with True show ?thesis
      by (simp add: Suc_diff_le replicate_append_same)
  next
    case False
    then show ?thesis by simp
  qed
qed

lemma degraded_durations: "map ex_slow_then_fast [0..<20] = replicate 20 3000"
proof -
  have "map ex_slow_then_fast [0..<20] = replicate (20 - 0) 3000"
    by (rule map_upt_const) (simp add: ex_slow_then_fast_def)
  then show ?thesis by (simp del: upt_rec_numeral)
qed

lemma recovered_durations:
  "sort (map ex_slow_then_fast [0..<420]) = replicate 400 0 @ replicate 20 3000"
proof (rule properties_for_sort)
  have split: "[0..<420] = [0..<20] @ [20..<420]"
    using upt_add_eq_append [of 0 20 400] by (simp del: upt_rec_numeral)
  have "map ex_slow_then_fast [20..<420] = replicate (420 - 20) 0"
    by (rule map_upt_const) (simp add: ex_slow_then_fast_def)
  then have fast: "map ex_slow_then_fast [20..<420] = replicate 400 0"
    by (simp del: upt_rec_numeral)
  have all: "map ex_slow_then_fast [0..<420] = replicate 20 3000 @ replicate 400 0"
    unfolding split map_append degraded_durations fast ..
  show "mset (replicate 400 0 @ replicate 20 3000) = mset (map ex_slow_then_fast [0..<420])"
    unfolding all by simp
  show "sorted (replicate 400 (0::rat) @ replicate 20 3000)"
    by (simp add: sorted_append)
qed

lemma p95_ms_category_metrics:
  "p95_ms (category_metrics thr cat ds) =
     (if 20 \<le> length ds then Some (sort ds ! p95_index (length ds)) else None)"
  by (simp add: category_metrics_def)

lemma degraded_metrics:
  "\<exists>m. get_performance_metrics ex_degraded = [(''api_request'', m)] \<and> p95_ms m = Some 3000"
proof -
  have "p95_index 20 = 19" by (simp add: p95_index_exact)
  then have "p95_ms (category_metrics thr ''api_request'' (map ex_slow_then_fast [0..<20])) =
      Some 3000" for thr
    unfolding degraded_durations p95_ms_category_metrics by (simp add: sorted_sort_id)
  moreover have "get_performance_metrics ex_degraded =
      [(''api_request'', category_metrics (thresholds ex_degraded) ''api_request''
          (map ex_slow_then_fast [0..<20]))]"
    unfolding ex_degraded_def by (rule get_performance_metrics_ex_spans) simp_all
  ultimately show ?thesis by blast
qed

lemma recovered_metrics:
  "\<exists>m. get_performance_metrics ex_recovered = [(''api_request'', m)] \<and> p95_ms m = Some 0"
proof -
  have i: "p95_index 420 = 399" by (simp add: p95_index_exact)
  have n: "length (map ex_slow_then_fast [0..<420]) = 420"
    by (simp del: upt_rec_numeral)
  have "(replicate 400 (0::rat) @ replicate 20 3000) ! 399 = 0"
    by (simp add: nth_append)
  then have "p95_ms (category_metrics thr ''api_request'' (map ex_slow_then_fast [0..<420])) =
      Some 0" for thr
    unfolding p95_ms_category_metrics n i recovered_durations by simp
  moreover have "get_performance_metrics ex_recovered =
      [(''api_request'', category_metrics (thresholds ex_recovered) ''api_request''
          (map ex_slow_then_fast [0..<420]))]"
    unfolding ex_recovered_def by (rule get_performance_metrics_ex_spans) simp_all
  ultimately show ?thesis by blast
qed

lemma digits_2: "digits 2 n = [digit_char (n div 10 mod 10), digit_char (n mod 10)]"
proof -
  have "(2::nat) = Suc (Suc 0)" by simp
  then show ?thesis by (simp only: digits.simps append.simps)
qed

lemma digits_4:
  "digits 4 n =
     [digit_char (n div 10 div 10 div 10 mod 10), digit_char (n div 10 div 10 mod 10),
      digit_char (n div 10 mod 10), digit_char (n mod 10)]"
proof -
  have "(4::nat) = Suc (Suc (Suc (Suc 0)))" by simp
  then show ?thesis by (simp only: digits.simps append.simps)
qed

lemmas render_defs =
  alert_id_of_def strftime_compact_def strftime_hour_def digits_2 digits_4 digit_char_def
  str_int_def str_nat_small str_nat_large ex_message_hash_def ex_time_def ex_clock_def

lemma performance_step_fires:
  assumes "p95_ms m = Some 3000"
    and "alert_thresholds s = alert_thresholds init_alert_system"
    and "alert_ids_wellformed ex_message_hash s"
  shows "performance_step ex_message_hash key_now alert_now s (''api_request'', m) =
     snd (trigger_alert ex_message_hash PERFORMANCE WARNING
            (PerformanceDegradation ''api_request'' 3000 2000)
            (no_details\<lparr> d_category := Some ''api_request'', d_p95_ms := Some 3000,
                         d_threshold_ms := Some 2000, d_metrics := Some m \<rparr>)
            (alert_now ''api_request'') s)"
proof -
  have key: "map_of (active_alerts s)
      (''performance_'' @ ''api_request'' @ ''_'' @ strftime_hour (key_now ''api_request'')) = None"
    using hour_key_not_active [OF assms(3), of "''performance_api_request''" "key_now ''api_request''"]
    by (simp only: append.simps)
  show ?thesis
    unfolding performance_step_def Let_def fst_conv snd_conv assms(1,2) key
    by (simp add: init_alert_system_def)
qed

lemma ex_alerted_eq:
  "\<exists>m. p95_ms m = Some 3000 \<and> get_performance_metrics ex_degraded = [(''api_request'', m)] \<and>
       ex_alerted =
         snd (trigger_alert ex_message_hash PERFORMANCE WARNING
                (PerformanceDegradation ''api_request'' 3000 2000)
                (no_details\<lparr> d_category := Some ''api_request'', d_p95_ms := Some 3000,
                             d_threshold_ms := Some 2000, d_metrics := Some m \<rparr>)
                (ex_time 10 0) init_alert_system)"
proof -
  from degraded_metrics obtain m where
    m: "get_performance_metrics ex_degraded = [(''api_request'', m)]" "p95_ms m = Some 3000"
    by blast
  have wf: "alert_ids_wellformed ex_message_hash init_alert_system"
    by (rule wellformed_reachable) (rule areach_init)
  have "ex_alerted = performance_step ex_message_hash (ex_clock 10 0) (ex_clock 10 0)
      init_alert_system (''api_request'', m)"
    by (simp add: ex_alerted_def check_performance_alerts_def m(1))
  also note performance_step_fires [OF m(2) refl wf]
  finally show ?thesis using m by (auto simp: ex_clock_def)
qed

subsection \<open>The performance detector\<close>

text \<open>The look-up of the performance check finds no active alert either, whatever the
  category and the hour.\<close>

lemma performance_key_never_active:
  assumes "alert_reachable hash s"
  shows "map_of (active_alerts s) (''performance_'' @ cat @ ''_'' @ strftime_hour key_now) = None"
  using hour_key_not_active [OF wellformed_reachable [OF assms], of "''performance_'' @ cat" key_now]
  by simp

text \<open>
  Claim C1 does not hold of the code. The performance check looks for an active alert
  under the key \<^verbatim>\<open>performance_{category}_{%Y%m%d_%H}\<close>, but the active alerts are stored
  under their ids \<^verbatim>\<open>performance_{%Y%m%d%H%M%S}_{hash}\<close>, so the check never finds one. Here
  the category \<^verbatim>\<open>api_request\<close> has a p95 of 3000 ms over a threshold of 2000 ms: the check
  of 10:00:00 triggers an alert, and the check of 10:01:00, in the same hour, triggers a
  second one, so that two performance alerts of the category are active.
\<close>

theorem performance_alerts_not_deduplicated:
  "strftime_hour (ex_time 10 0) = ''20261104_10'' \<and>
   strftime_hour (ex_time 10 1) = ''20261104_10'' \<and>
   map (\<lambda>e. (fst e, a_type (snd e), d_category (a_details (snd e)))) (active_alerts ex_alerted) =
     [(''performance_20261104100000_4242'', PERFORMANCE, Some ''api_request'')] \<and>
   map (\<lambda>e. (fst e, a_type (snd e), d_category (a_details (snd e))))
     (active_alerts
        (check_performance_alerts ex_message_hash (ex_clock 10 1) (ex_clock 10 1) ex_degraded
           ex_alerted)) =
     [(''performance_20261104100000_4242'', PERFORMANCE, Some ''api_request''),
      (''performance_20261104100100_4242'', PERFORMANCE, Some ''api_request'')]"
proof -
  from ex_alerted_eq obtain m where
    p: "p95_ms m = Some 3000" and
    m: "get_performance_metrics ex_degraded = [(''api_request'', m)]" and
    a: "ex_alerted =
         snd (trigger_alert ex_message_hash PERFORMANCE WARNING
                (PerformanceDegradation ''api_request'' 3000 2000)
                (no_details\<lparr> d_category := Some ''api_request'', d_p95_ms := Some 3000,
                             d_threshold_ms := Some 2000, d_metrics := Some m \<rparr>)
                (ex_time 10 0) init_alert_system)"
    by blast
  have hours: "strftime_hour (ex_time 10 0) = ''20261104_10''"
    "strftime_hour (ex_time 10 1) = ''20261104_10''"
    by (simp_all add: render_defs)
  have ids: "alert_id_of ex_message_hash PERFORMANCE (ex_time 10 0)
        (PerformanceDegradation ''api_request'' 3000 2000) = ''performance_20261104100000_4242''"
      "alert_id_of ex_message_hash PERFORMANCE (ex_time 10 1)
        (PerformanceDegradation ''api_request'' 3000 2000) = ''performance_20261104100100_4242''"
    by (simp_all add: render_defs)
  have wf: "alert_ids_wellformed ex_message_hash ex_alerted"
    unfolding a by (intro wellformed_trigger wellformed_reachable areach_init)
  have thr: "alert_thresholds ex_alerted = alert_thresholds init_alert_system"
    by (simp add: a trigger_alert_def Let_def)
  have second: "check_performance_alerts ex_message_hash (ex_clock 10 1) (ex_clock 10 1)
      ex_degraded ex_alerted =
      snd (trigger_alert ex_message_hash PERFORMANCE WARNING
            (PerformanceDegradation ''api_request'' 3000 2000)
            (no_details\<lparr> d_category := Some ''api_request'', d_p95_ms := Some 3000,
                         d_threshold_ms := Some 2000, d_metrics := Some m \<rparr>)
            (ex_time 10 1) ex_alerted)"
    using performance_step_fires [OF p thr wf, of "ex_clock 10 1" "ex_clock 10 1"]
    by (simp add: check_performance_alerts_def m ex_clock_def)
  have first: "active_alerts ex_alerted =
      [(''performance_20261104100000_4242'',
        \<lparr> a_id = ''performance_20261104100000_4242'', a_type = PERFORMANCE,
          a_severity = WARNING, a_message = PerformanceDegradation ''api_request'' 3000 2000,
          a_details = no_details\<lparr> d_category := Some ''api_request'', d_p95_ms := Some 3000,
                         d_threshold_ms := Some 2000, d_metrics := Some m \<rparr>,
          a_timestamp = ex_time 10 0, a_status = Active, a_resolved_at = None,
          a_resolution_message = None \<rparr>)]"
    unfolding a by (simp add: trigger_alert_def Let_def ids init_alert_system_def)
  have one: "ex_time 10 (Suc 0) = ex_time 10 1" by simp
  show ?thesis
    unfolding second
    by (simp add: one hours first trigger_alert_def Let_def ids no_details_def del: One_nat_def)
qed

subsection \<open>The auto-resolution sweep\<close>

text \<open>
  What a sweep does, over active alerts with distinct ids and an archive within its bound:
  it removes from the active alerts exactly those for which \<^const>\<open>recovery\<close> gives a
  message, keeps the others in their order, and appends the removed ones, resolved, to the
  archive of the last 1000 resolved alerts.
\<close>

lemma auto_resolve_step_recovery:
  "auto_resolve_step now tracker s item =
     (case recovery tracker (snd item) of
        None \<Rightarrow> s
      | Some msg \<Rightarrow> snd (resolve_alert (fst item) msg (now (fst item)) s))"
  by (simp add: auto_resolve_step_def recovery_def Let_def split: option.splits)

lemma foldl_append_capped:
  "length xs \<le> n \<Longrightarrow> foldl (append_capped n) xs ys = keep_last n (xs @ ys)"
proof (induction ys arbitrary: xs)
  case Nil
  then show ?case by (simp add: keep_last_def)
next
  case (Cons y ys)
  from Cons.prems have "length (append_capped n xs y) \<le> n"
    by (rule length_append_capped)
  from Cons.IH [OF this] Cons.prems show ?case
    by (simp add: append_capped_keep_last keep_last_keep_last_append)
qed

lemma map_of_middle:
  "k \<notin> fst ` set R \<Longrightarrow> map_of (R @ (k, a) # Q) k = Some a"
  by (induction R) auto

lemma delete_middle:
  "k \<notin> fst ` set R \<Longrightarrow> k \<notin> fst ` set Q \<Longrightarrow> AList.delete k (R @ (k, a) # Q) = R @ Q"
  by (induction R) (auto simp: AList.delete_id)

lemma sweep_general:
  assumes "active_alerts s = R @ Q" and "distinct (map fst (R @ Q))"
  shows "active_alerts (foldl (auto_resolve_step now tracker) s Q) =
           R @ filter (\<lambda>e. recovery tracker (snd e) = None) Q \<and>
         resolved_alerts (foldl (auto_resolve_step now tracker) s Q) =
           foldl (append_capped 1000) (resolved_alerts s)
             (map (resolved_at_sweep now tracker)
                (filter (\<lambda>e. recovery tracker (snd e) \<noteq> None) Q)) \<and>
         alert_thresholds (foldl (auto_resolve_step now tracker) s Q) = alert_thresholds s \<and>
         handled (foldl (auto_resolve_step now tracker) s Q) = handled s"
  using assms
proof (induction Q arbitrary: s R)
  case Nil
  then show ?case by simp
next
  case (Cons e Q)
  obtain k a where e: "e = (k, a)" by (cases e)
  from Cons.prems e have k: "k \<notin> fst ` set R" "k \<notin> fst ` set Q"
    by auto
  show ?case
  proof (cases "recovery tracker a")
    case None
    then have step: "auto_resolve_step now tracker s (k, a) = s"
      by (simp add: auto_resolve_step_recovery)
    have "active_alerts s = (R @ [e]) @ Q" "distinct (map fst ((R @ [e]) @ Q))"
      using Cons.prems by simp_all
    from Cons.IH [OF this] None show ?thesis
      by (simp add: step e)
  next
    case (Some msg)
    let ?s' = "snd (resolve_alert k msg (now k) s)"
    have look: "map_of (active_alerts s) k = Some a"
      unfolding Cons.prems(1) e using k(1) by (rule map_of_middle)
    have step: "auto_resolve_step now tracker s (k, a) = ?s'"
      by (simp add: auto_resolve_step_recovery Some)
    have "AList.delete k (active_alerts s) = R @ Q"
      unfolding Cons.prems(1) e using k by (rule delete_middle)
    then have act: "active_alerts ?s' = R @ Q"
      using look by (simp add: resolve_alert_def)
    have res: "resolved_alerts ?s' =
        append_capped 1000 (resolved_alerts s) (resolved_at_sweep now tracker e)"
      using look by (simp add: resolve_alert_def resolved_at_sweep_def e Some)
    have same: "alert_thresholds ?s' = alert_thresholds s" "handled ?s' = handled s"
      using look by (simp_all add: resolve_alert_def)
    have "distinct (map fst (R @ Q))"
      using Cons.prems(2) by simp
    from Cons.IH [OF act this] Some show ?thesis
      by (simp add: step e res same)
  qed
qed

lemma auto_resolve_alerts_sweep:
  assumes "distinct (map fst (active_alerts s))" and "length (resolved_alerts s) \<le> 1000"
  shows "active_alerts (auto_resolve_alerts now tracker s) =
           filter (\<lambda>e. recovery tracker (snd e) = None) (active_alerts s) \<and>
         resolved_alerts (auto_resolve_alerts now tracker s) =
           keep_last 1000
             (resolved_alerts s @
              map (resolved_at_sweep now tracker)
                (filter (\<lambda>e. recovery tracker (snd e) \<noteq> None) (active_alerts s))) \<and>
         alert_thresholds (auto_resolve_alerts now tracker s) = alert_thresholds s \<and>
         handled (auto_resolve_alerts now tracker s) = handled s"
  using sweep_general [of s "[]" "active_alerts s" now tracker] assms
  by (simp add: auto_resolve_alerts_def foldl_append_capped)

text \<open>
  Claim C4 does not hold of the code. The sweep tests \<^verbatim>\<open>p95_ms and threshold_ms and
  p95_ms < threshold_ms\<close>, which is false for a p95 of zero. Here the category of the
  active alert has recovered to a p95 of 0 ms, below the recorded threshold of 2000 ms, and
  the sweep leaves the alert active and the whole system unchanged.
\<close>

theorem auto_resolve_misses_zero_p95:
  "map (\<lambda>e. (fst e, p95_ms (snd e))) (get_performance_metrics ex_recovered) =
     [(''api_request'', Some 0)] \<and>
   map (\<lambda>e. (fst e, a_type (snd e), d_category (a_details (snd e)),
              d_threshold_ms (a_details (snd e))))
       (active_alerts ex_alerted) =
     [(''performance_20261104100000_4242'', PERFORMANCE, Some ''api_request'', Some 2000)] \<and>
   auto_resolve_alerts (ex_clock 11 0) ex_recovered ex_alerted = ex_alerted"
proof -
  from ex_alerted_eq obtain m where
    a: "ex_alerted =
         snd (trigger_alert ex_message_hash PERFORMANCE WARNING
                (PerformanceDegradation ''api_request'' 3000 2000)
                (no_details\<lparr> d_category := Some ''api_request'', d_p95_ms := Some 3000,
                             d_threshold_ms := Some 2000, d_metrics := Some m \<rparr>)
                (ex_time 10 0) init_alert_system)"
    by blast
  from recovered_metrics obtain m' where
    m': "get_performance_metrics ex_recovered = [(''api_request'', m')]" "p95_ms m' = Some 0"
    by blast
  have ids: "alert_id_of ex_message_hash PERFORMANCE (ex_time 10 0)
        (PerformanceDegradation ''api_request'' 3000 2000) = ''performance_20261104100000_4242''"
    by (simp add: render_defs)
  have first: "active_alerts ex_alerted =
      [(''performance_20261104100000_4242'',
        \<lparr> a_id = ''performance_20261104100000_4242'', a_type = PERFORMANCE,
          a_severity = WARNING, a_message = PerformanceDegradation ''api_request'' 3000 2000,
          a_details = no_details\<lparr> d_category := Some ''api_request'', d_p95_ms := Some 3000,
                         d_threshold_ms := Some 2000, d_metrics := Some m \<rparr>,
          a_timestamp = ex_time 10 0, a_status = Active, a_resolved_at = None,
          a_resolution_message = None \<rparr>)]"
    unfolding a by (simp add: trigger_alert_def Let_def ids init_alert_system_def)
  have "auto_resolve_alerts (ex_clock 11 0) ex_recovered ex_alerted = ex_alerted"
    unfolding auto_resolve_alerts_def first
    by (simp add: auto_resolve_step_def Let_def m' no_details_def)
  then show ?thesis
    by (simp add: m' first no_details_def)
qed

end
